theory Spec2Isabelle
  imports Main
begin

section \<open>Strings\<close>

text \<open>
  JavaScript strings are modelled as \<open>string\<close>. The line feed of the template
  literals is the single character \<open>newline\<close>.
\<close>

definition newline :: string where
  "newline = [CHR 0x0A]"

text \<open>
  \<^verbatim>\<open>String.prototype.toUpperCase\<close> on the characters the wire uses: an ASCII lower-case
  letter (codes 97 to 122) loses bit 5, every other character is kept.
\<close>

definition upper_char :: "char \<Rightarrow> char" where
  "upper_char c =
     (let n = (of_char c :: nat) in
      if 97 \<le> n \<and> n \<le> 122
      then (case c of Char b0 b1 b2 b3 b4 b5 b6 b7 \<Rightarrow> Char b0 b1 b2 b3 b4 False b6 b7)
      else c)"

definition toUpperCase :: "string \<Rightarrow> string" where
  "toUpperCase s = map upper_char s"

section \<open>Errors\<close>

text \<open>
  A \<^verbatim>\<open>throw\<close> of the service is a value of this type; a function that can throw
  returns \<open>error + 'a\<close> with \<open>Inl\<close> for the exception.
  \<^item> \<open>InvalidStepIndex i\<close>: \<^verbatim>\<open>new Error(`Invalid stepIndex: ${stepIndex}`)\<close>;
  \<^item> \<open>ThreadResponseNotFound i\<close>: \<^verbatim>\<open>new Error(`Thread response ${id} not found`)\<close>.
\<close>

datatype error =
    InvalidStepIndex int
  | ThreadResponseNotFound nat

section \<open>CTE assembly: \<^verbatim>\<open>constructCteSql\<close>\<close>

record step =
  cteName :: string
  summary :: string
  sql :: string

text \<open>
  The callback of \<^verbatim>\<open>slicedSteps.forEach((step, index) => ...)\<close>: \<open>n\<close> is
  \<^verbatim>\<open>slicedSteps.length\<close>, \<open>acc\<close> the value of the variable \<^verbatim>\<open>sql\<close> before the call.
  The comparisons are on integers, as \<^verbatim>\<open>length - 1\<close> and \<^verbatim>\<open>length - 2\<close> may be negative.
\<close>

definition forEach_callback :: "nat \<Rightarrow> string \<Rightarrow> step \<Rightarrow> nat \<Rightarrow> string" where
  "forEach_callback n acc st index =
     (if int index = int n - 1 then
        (acc @ newline @ ''-- '' @ summary st @ newline) @ sql st
      else if int index = int n - 2 then
        ((acc @ cteName st @ '' AS'') @ newline @ ''-- '' @ summary st @ newline)
          @ ''('' @ sql st @ '')''
      else
        ((acc @ cteName st @ '' AS'') @ newline @ ''-- '' @ summary st @ newline)
          @ ''('' @ sql st @ ''),'')"

fun forEach_steps :: "nat \<Rightarrow> step list \<Rightarrow> nat \<Rightarrow> string \<Rightarrow> string" where
  "forEach_steps n [] index acc = acc"
| "forEach_steps n (st # rest) index acc =
     forEach_steps n rest (index + 1) (forEach_callback n acc st index)"

definition slice_steps :: "step list \<Rightarrow> int option \<Rightarrow> step list" where
  "slice_steps steps stepIndex =
     (case stepIndex of
        None \<Rightarrow> steps
      | Some i \<Rightarrow> take (nat (i + 1)) steps)"

text \<open>
  \<open>stepIndex\<close> is \<open>None\<close> when the argument is omitted (\<^verbatim>\<open>isNil\<close>), otherwise an
  integer.
\<close>

definition constructCteSql :: "step list \<Rightarrow> int option \<Rightarrow> error + string" where
  "constructCteSql steps stepIndex =
     (case stepIndex of
        Some i \<Rightarrow>
          if i < 0 \<or> i \<ge> int (length steps) then Inl (InvalidStepIndex i)
          else
            (let slicedSteps = slice_steps steps stepIndex in
             if length slicedSteps = 1
             then Inr (''-- '' @ summary (slicedSteps ! 0) @ newline @ sql (slicedSteps ! 0))
             else Inr (forEach_steps (length slicedSteps) slicedSteps 0 ''WITH ''))
      | None \<Rightarrow>
          (let slicedSteps = slice_steps steps stepIndex in
           if length slicedSteps = 1
           then Inr (''-- '' @ summary (slicedSteps ! 0) @ newline @ sql (slicedSteps ! 0))
           else Inr (forEach_steps (length slicedSteps) slicedSteps 0 ''WITH '')))"

text \<open>
  The shape the specification describes, written from its words: a step wrapped as a
  CTE with a trailing comma, a step wrapped as a CTE without one, and the trailing
  un-wrapped statement, each with the comment line of its summary.
\<close>

definition cte_with_comma :: "step \<Rightarrow> string" where
  "cte_with_comma st =
     cteName st @ '' AS'' @ newline @ ''-- '' @ summary st @ newline @ ''('' @ sql st @ ''),''"

definition cte_without_comma :: "step \<Rightarrow> string" where
  "cte_without_comma st =
     cteName st @ '' AS'' @ newline @ ''-- '' @ summary st @ newline @ ''('' @ sql st @ '')''"

definition trailing_sql :: "step \<Rightarrow> string" where
  "trailing_sql st = newline @ ''-- '' @ summary st @ newline @ sql st"

definition with_clause :: "step list \<Rightarrow> string" where
  "with_clause emitted =
     ''WITH '' @ concat (map cte_with_comma (butlast (butlast emitted)))
       @ cte_without_comma (last (butlast emitted)) @ trailing_sql (last emitted)"

definition starts_with :: "string \<Rightarrow> error + string \<Rightarrow> bool" where
  "starts_with p r = (case r of Inl _ \<Rightarrow> False | Inr s \<Rightarrow> take (length p) s = p)"

section \<open>Thread responses and their repository\<close>

text \<open>
  \<^verbatim>\<open>ThreadResponseAnswerStatus\<close>, as the service declares it.
\<close>

datatype ThreadResponseAnswerStatus =
    NOT_STARTED
  | FETCHING_DATA
  | PREPROCESSING
  | STREAMING
  | FINISHED
  | FAILED
  | INTERRUPTED

text \<open>
  The error codes of \<^verbatim>\<open>Errors.GeneralErrorCodes\<close> that the adaptor names, and any other
  code of the wire as \<open>OtherCode\<close> (the empty code is \<open>OtherCode []\<close>). The object that
  \<^verbatim>\<open>Errors.create(code, {customMessage})\<close> builds, read as \<^verbatim>\<open>{code, message, shortMessage}\<close>,
  is kept as \<open>Errors_create\<close> applied to its two arguments: the module of
  \<^verbatim>\<open>Errors.create\<close> is not among the sources.
\<close>

datatype GeneralErrorCodes =
    NO_RELEVANT_SQL
  | AI_SERVICE_UNDEFINED_ERROR
  | OtherCode string

datatype RubixError = Errors_create GeneralErrorCodes "string option"

text \<open>
  The status of a breakdown is an \<^verbatim>\<open>AskResultStatus\<close>. At run time it is the string the
  adaptor has upper-cased, so it is a \<open>string\<close> here; the members of the enumeration that
  the service names are the constants below.

  Modelled from the spec: the declaration of \<^verbatim>\<open>AskResultStatus\<close> (module
  \<^verbatim>\<open>models/adaptor\<close>) is not among the sources; status strings are lower-case on the wire
  and upper-cased internally to match the enumeration, so each member is its own name.
\<close>

definition UNDERSTANDING :: string where
  "UNDERSTANDING = ''UNDERSTANDING''"

definition AskResultStatus_FAILED :: string where
  "AskResultStatus_FAILED = ''FAILED''"

definition AskResultStatus_FINISHED :: string where
  "AskResultStatus_FINISHED = ''FINISHED''"

definition AskResultStatus_STOPPED :: string where
  "AskResultStatus_STOPPED = ''STOPPED''"

definition isFinalized :: "string \<Rightarrow> bool" where
  "isFinalized status =
     (status = AskResultStatus_FAILED \<or> status = AskResultStatus_FINISHED
      \<or> status = AskResultStatus_STOPPED)"

text \<open>
  Modelled from the spec: the declarations of \<^verbatim>\<open>ThreadResponse\<close>, of its detail objects
  and of \<^verbatim>\<open>ThreadResponseAdjustmentType\<close> (module \<^verbatim>\<open>repositories\<close>) are not among the
  sources. A response is \<^verbatim>\<open>{id, threadId, question, sql, askingTaskId, breakdownDetail?,
  answerDetail?, chartDetail?, adjustment?}\<close>; each detail carries its query identifier, its
  status, an optional error and the properties of its kind, which are those the service
  and the tracker write. Of the adjustment types the service names \<open>APPLY_SQL\<close>;
  \<open>REASONING\<close> is the adjustment by reasoning feedback.
\<close>

record breakdownDetail =
  bd_queryId :: string
  bd_status :: "string option"
  bd_error :: "RubixError option"
  bd_description :: "string option"
  bd_steps :: "step list option"

record answerDetail =
  ad_queryId :: "string option"
  ad_status :: "ThreadResponseAnswerStatus option"
  ad_content :: "string option"
  ad_numRowsUsedInLLM :: "nat option"
  ad_error :: "RubixError option"

record chartDetail =
  cd_queryId :: string
  cd_status :: string
  cd_adjustment :: "bool option"

datatype ThreadResponseAdjustmentType = REASONING | APPLY_SQL

record adjustmentPayload =
  originalThreadResponseId :: "nat option"
  payload_sql :: "string option"

record adjustment =
  adj_type :: ThreadResponseAdjustmentType
  adj_payload :: adjustmentPayload

text \<open>
  A \<^verbatim>\<open>ThreadResponse\<close> row. An optional property that is absent is \<open>None\<close>.
\<close>

record ThreadResponse =
  tr_id :: nat
  tr_threadId :: nat
  tr_question :: "string option"
  tr_sql :: "string option"
  tr_askingTaskId :: "nat option"
  tr_breakdownDetail :: "breakdownDetail option"
  tr_answerDetail :: "answerDetail option"
  tr_chartDetail :: "chartDetail option"
  tr_adjustment :: "adjustment option"

text \<open>
  The partial record given to \<^verbatim>\<open>updateOne\<close>: the service and the tracker write one
  property at a time.
\<close>

datatype ThreadResponsePatch =
    PatchSql string
  | PatchBreakdownDetail breakdownDetail
  | PatchAnswerDetail answerDetail
  | PatchChartDetail chartDetail

fun apply_patch :: "ThreadResponsePatch \<Rightarrow> ThreadResponse \<Rightarrow> ThreadResponse" where
  "apply_patch (PatchSql s) r = r\<lparr>tr_sql := Some s\<rparr>"
| "apply_patch (PatchBreakdownDetail d) r = r\<lparr>tr_breakdownDetail := Some d\<rparr>"
| "apply_patch (PatchAnswerDetail d) r = r\<lparr>tr_answerDetail := Some d\<rparr>"
| "apply_patch (PatchChartDetail d) r = r\<lparr>tr_chartDetail := Some d\<rparr>"

text \<open>
  Modelled from the spec: the persistence collaborator \<^verbatim>\<open>IThreadResponseRepository\<close>
  (\<^verbatim>\<open>findOneBy\<close>, \<^verbatim>\<open>findAll\<close>, \<^verbatim>\<open>createOne\<close>, \<^verbatim>\<open>updateOne\<close>), which the sources consume and
  do not implement. It is a row store: the rows in insertion order, and the log of the
  writes it has carried out. \<^verbatim>\<open>createOne\<close> adds a row under an identifier no row has
  (one more than the largest) and returns it; \<^verbatim>\<open>updateOne\<close> overwrites the given
  properties of the row with the identifier, leaves every other row as it is and returns
  the updated row (\<open>None\<close> when there is no such row).
\<close>

datatype repository_write =
    Created nat
  | Updated nat ThreadResponsePatch

record repository =
  rows :: "ThreadResponse list"
  writes :: "repository_write list"

definition findOneBy :: "repository \<Rightarrow> nat \<Rightarrow> ThreadResponse option" where
  "findOneBy repo i = find (\<lambda>r. tr_id r = i) (rows repo)"

definition findAll :: "repository \<Rightarrow> ThreadResponse list" where
  "findAll repo = rows repo"

primrec max_id :: "ThreadResponse list \<Rightarrow> nat" where
  "max_id [] = 0"
| "max_id (r # rs) = max (tr_id r) (max_id rs)"

definition createOne :: "repository \<Rightarrow> ThreadResponse \<Rightarrow> repository \<times> ThreadResponse" where
  "createOne repo props =
     (let r = props\<lparr>tr_id := Suc (max_id (rows repo))\<rparr> in
      (\<lparr>rows = rows repo @ [r], writes = writes repo @ [Created (tr_id r)]\<rparr>, r))"

definition updateOne ::
  "repository \<Rightarrow> nat \<Rightarrow> ThreadResponsePatch \<Rightarrow> repository \<times> ThreadResponse option" where
  "updateOne repo i p =
     (\<lparr>rows = map (\<lambda>r. if tr_id r = i then apply_patch p r else r) (rows repo),
       writes = writes repo @ [Updated i p]\<rparr>,
      map_option (apply_patch p) (findOneBy repo i))"

text \<open>
  The properties \<^verbatim>\<open>createOne\<close> is given; the identifier is assigned by the repository.
\<close>

definition new_fields :: "nat \<Rightarrow> ThreadResponse" where
  "new_fields threadId =
     \<lparr>tr_id = 0, tr_threadId = threadId, tr_question = None, tr_sql = None,
      tr_askingTaskId = None, tr_breakdownDetail = None, tr_answerDetail = None,
      tr_chartDetail = None, tr_adjustment = None\<rparr>"

section \<open>\<^verbatim>\<open>AskingService\<close>: the operations on stored responses\<close>

text \<open>
  Each operation takes the repository and returns the repository it leaves with its
  result, or the error it throws (nothing is written before a throw).
\<close>

definition adjustThreadResponseWithSQL ::
  "repository \<Rightarrow> nat \<Rightarrow> string \<Rightarrow> error + repository \<times> ThreadResponse" where
  "adjustThreadResponseWithSQL repo threadResponseId input_sql =
     (case findOneBy repo threadResponseId of
        None \<Rightarrow> Inl (ThreadResponseNotFound threadResponseId)
      | Some response \<Rightarrow>
          Inr (createOne repo
            ((new_fields (tr_threadId response))
              \<lparr>tr_sql := Some input_sql,
               tr_question := tr_question response,
               tr_adjustment := Some
                 \<lparr>adj_type = APPLY_SQL,
                  adj_payload = \<lparr>originalThreadResponseId = Some (tr_id response),
                                 payload_sql = Some input_sql\<rparr>\<rparr>\<rparr>)))"

text \<open>
  \<^verbatim>\<open>{...response.answerDetail, status, content}\<close>: the properties of the stored detail
  (none when there is no detail), with \<^verbatim>\<open>status\<close> and \<^verbatim>\<open>content\<close> set.
\<close>

definition spread_answerDetail ::
  "answerDetail option \<Rightarrow> ThreadResponseAnswerStatus \<Rightarrow> string option \<Rightarrow> answerDetail" where
  "spread_answerDetail d status content =
     (case d of
        None \<Rightarrow> \<lparr>ad_queryId = None, ad_status = Some status, ad_content = content,
                  ad_numRowsUsedInLLM = None, ad_error = None\<rparr>
      | Some ad \<Rightarrow> ad\<lparr>ad_status := Some status, ad_content := content\<rparr>)"

text \<open>
  \<^verbatim>\<open>response.answerDetail?.status\<close>: \<open>None\<close> for \<^verbatim>\<open>undefined\<close>.
\<close>

definition answerDetail_status :: "ThreadResponse \<Rightarrow> ThreadResponseAnswerStatus option" where
  "answerDetail_status response =
     (case tr_answerDetail response of None \<Rightarrow> None | Some ad \<Rightarrow> ad_status ad)"

text \<open>
  The result is \<open>None\<close> where the function returns \<^verbatim>\<open>undefined\<close> (the bare \<^verbatim>\<open>return;\<close>).
\<close>

definition changeThreadResponseAnswerDetailStatus ::
  "repository \<Rightarrow> nat \<Rightarrow> ThreadResponseAnswerStatus \<Rightarrow> string option
     \<Rightarrow> error + repository \<times> ThreadResponse option" where
  "changeThreadResponseAnswerDetailStatus repo responseId status content =
     (case findOneBy repo responseId of
        None \<Rightarrow> Inl (ThreadResponseNotFound responseId)
      | Some response \<Rightarrow>
          if answerDetail_status response = Some status
          then Inr (repo, None)
          else Inr (updateOne repo responseId
                      (PatchAnswerDetail
                        (spread_answerDetail (tr_answerDetail response) status content))))"

section \<open>Example data\<close>

text \<open>
  A stored response with identifier 7 in thread 3, whose answer is streaming, and the
  repository that holds only this row.
\<close>

definition example_response :: ThreadResponse where
  "example_response =
     \<lparr>tr_id = 7, tr_threadId = 3, tr_question = Some ''How many orders?'',
      tr_sql = Some ''SELECT 1'', tr_askingTaskId = None, tr_breakdownDetail = None,
      tr_answerDetail = Some \<lparr>ad_queryId = Some ''q1'', ad_status = Some STREAMING,
        ad_content = None, ad_numRowsUsedInLLM = Some 5, ad_error = None\<rparr>,
      tr_chartDetail = None, tr_adjustment = None\<rparr>"

definition example_repository :: repository where
  "example_repository = \<lparr>rows = [example_response], writes = []\<rparr>"

section \<open>The adaptor: waiting for a deployment\<close>

text \<open>
  What an \<^verbatim>\<open>await\<close> of an HTTP request yields: the body of the reply, or the rejection
  of the request with the message of its error.
\<close>

datatype 'a http_reply = Reply 'a | Rejected string

text \<open>
  The exceptions of the adaptor, and \<^verbatim>\<open>err.message\<close>.
  \<^item> \<open>RequestError m\<close>: the rejection of a request;
  \<^item> \<open>ResponseError m\<close>: \<^verbatim>\<open>new Error(res.data.error)\<close> of \<^verbatim>\<open>getDeployStatus\<close>;
  \<^item> \<open>TypeError m\<close>: a method call on \<^verbatim>\<open>undefined\<close>, with the engine's message;
  \<^item> \<open>UnknownAskStatus s\<close>: \<^verbatim>\<open>new Error(`Unknown ask status: ${body?.status}`)\<close>, \<open>s\<close>
    the status of the body (\<open>None\<close> for \<^verbatim>\<open>undefined\<close>).
\<close>

datatype adaptor_error =
    RequestError string
  | ResponseError string
  | TypeError string
  | UnknownAskStatus "string option"

fun message :: "adaptor_error \<Rightarrow> string" where
  "message (RequestError m) = m"
| "message (ResponseError m) = m"
| "message (TypeError m) = m"
| "message (UnknownAskStatus None) = ''Unknown ask status: undefined''"
| "message (UnknownAskStatus (Some s)) = ''Unknown ask status: '' @ s"

text \<open>
  The message of the \<^verbatim>\<open>TypeError\<close> for \<^verbatim>\<open>undefined.toUpperCase()\<close>, in the wording of the
  V8 engine.
\<close>

definition toUpperCase_of_undefined :: string where
  "toUpperCase_of_undefined =
     ''Cannot read properties of undefined (reading '' @ [CHR 0x27] @ ''toUpperCase''
       @ [CHR 0x27] @ '')''"

text \<open>
  Modelled from the spec: the declaration of \<^verbatim>\<open>RubixSystemStatus\<close> (module
  \<^verbatim>\<open>models/adaptor\<close>) is not among the sources; as for \<^verbatim>\<open>AskResultStatus\<close>, each member
  that \<^verbatim>\<open>waitDeployFinished\<close> names is its own upper-case name.
\<close>

definition RubixSystemStatus_FINISHED :: string where
  "RubixSystemStatus_FINISHED = ''FINISHED''"

definition RubixSystemStatus_FAILED :: string where
  "RubixSystemStatus_FAILED = ''FAILED''"

definition RubixSystemStatus_INDEXING :: string where
  "RubixSystemStatus_INDEXING = ''INDEXING''"

text \<open>
  The body of \<^verbatim>\<open>GET /v1/semantics-preparations/{id}/status\<close>.
\<close>

record deploy_status_body =
  dsb_error :: "string option"
  dsb_status :: "string option"

text \<open>
  \<^verbatim>\<open>getDeployStatus\<close>, applied to what its request yields. A non-empty \<^verbatim>\<open>error\<close> of the
  body is thrown; the status is upper-cased, and a body without status makes the call
  of \<^verbatim>\<open>toUpperCase\<close> throw.
\<close>

definition getDeployStatus :: "deploy_status_body http_reply \<Rightarrow> adaptor_error + string" where
  "getDeployStatus r =
     (case r of
        Rejected m \<Rightarrow> Inl (RequestError m)
      | Reply body \<Rightarrow>
          (case dsb_error body of
             Some e \<Rightarrow>
               if e \<noteq> [] then Inl (ResponseError e)
               else (case dsb_status body of
                       None \<Rightarrow> Inl (TypeError toUpperCase_of_undefined)
                     | Some s \<Rightarrow> Inr (toUpperCase s))
           | None \<Rightarrow>
               (case dsb_status body of
                  None \<Rightarrow> Inl (TypeError toUpperCase_of_undefined)
                | Some s \<Rightarrow> Inr (toUpperCase s))))"

text \<open>
  The loop of \<^verbatim>\<open>waitDeployFinished\<close>. \<open>replies k\<close> is what the request of the iteration
  with \<^verbatim>\<open>waitTime = k\<close> yields; \<open>slept\<close> collects the delays of \<^verbatim>\<open>setTimeout\<close>, in
  milliseconds. The result is the exception thrown, or the value returned: \<open>None\<close> for
  the bare \<^verbatim>\<open>return;\<close> of the unknown status.
\<close>

function waitLoop ::
  "(nat \<Rightarrow> deploy_status_body http_reply) \<Rightarrow> nat \<Rightarrow> bool \<Rightarrow> nat list
     \<Rightarrow> (adaptor_error + bool option) \<times> nat list" where
  "waitLoop replies waitTime deploySuccess slept =
     (if waitTime \<le> 7 then
        (case getDeployStatus (replies waitTime) of
           Inl e \<Rightarrow> (Inl e, slept)
         | Inr status \<Rightarrow>
             if status = RubixSystemStatus_FINISHED then (Inr (Some True), slept)
             else if status = RubixSystemStatus_FAILED then (Inr (Some deploySuccess), slept)
             else if status = RubixSystemStatus_INDEXING
             then waitLoop replies (waitTime + 1) deploySuccess (slept @ [waitTime * 1000])
             else (Inr None, slept))
      else (Inr (Some deploySuccess), slept))"
  by pat_completeness auto
termination
  by (relation "measure (\<lambda>(replies, waitTime, deploySuccess, slept). 8 - waitTime)") auto

declare waitLoop.simps [simp del]

definition waitDeployFinished ::
  "(nat \<Rightarrow> deploy_status_body http_reply) \<Rightarrow> (adaptor_error + bool option) \<times> nat list" where
  "waitDeployFinished replies = waitLoop replies 1 False []"

record DeployData =
  dd_manifest :: string
  dd_hash :: string

datatype RubixDeployStatusEnum = SUCCESS | FAILED

record RubixDeployResponse =
  rdr_status :: RubixDeployStatusEnum
  rdr_error :: "string option"

text \<open>
  \<^verbatim>\<open>deploy\<close>: \<open>post\<close> is what \<^verbatim>\<open>POST /v1/semantics-preparations\<close> yields (the identifier of
  the deployment). The \<^verbatim>\<open>try\<close> block is \<open>deploy_try\<close>, the \<^verbatim>\<open>catch\<close> turns its exception
  into a response. The second component is the list of delays waited.
\<close>

definition deploy_try ::
  "DeployData \<Rightarrow> string http_reply \<Rightarrow> (nat \<Rightarrow> deploy_status_body http_reply)
     \<Rightarrow> (adaptor_error + RubixDeployResponse) \<times> nat list" where
  "deploy_try deployData post replies =
     (case post of
        Rejected m \<Rightarrow> (Inl (RequestError m), [])
      | Reply deployId \<Rightarrow>
          (case waitDeployFinished replies of
             (Inl e, slept) \<Rightarrow> (Inl e, slept)
           | (Inr deploySuccess, slept) \<Rightarrow>
               if deploySuccess = Some True
               then (Inr \<lparr>rdr_status = SUCCESS, rdr_error = None\<rparr>, slept)
               else (Inr \<lparr>rdr_status = FAILED,
                          rdr_error = Some (''Rubix: Deploy Rubix failed or timeout, hash: ''
                                         @ dd_hash deployData)\<rparr>, slept)))"

definition deploy ::
  "DeployData \<Rightarrow> string http_reply \<Rightarrow> (nat \<Rightarrow> deploy_status_body http_reply)
     \<Rightarrow> RubixDeployResponse \<times> nat list" where
  "deploy deployData post replies =
     (case deploy_try deployData post replies of
        (Inr response, slept) \<Rightarrow> (response, slept)
      | (Inl err, slept) \<Rightarrow>
          (\<lparr>rdr_status = FAILED,
            rdr_error = Some (''Rubix Error: deployment hash:'' @ dd_hash deployData @ '', ''
                           @ message err)\<rparr>, slept))"

definition indexing_reply :: "deploy_status_body http_reply" where
  "indexing_reply = Reply \<lparr>dsb_error = None, dsb_status = Some ''indexing''\<rparr>"

section \<open>The adaptor: results of an ask detail\<close>

text \<open>
  The body of a result, as the wire gives it (lower-snake-case). The two properties that
  \<^verbatim>\<open>transformStatusAndError\<close> reads are in \<open>status_body\<close>, which the body of each kind of
  result extends; a property that is absent is \<open>None\<close>.
\<close>

record wire_error =
  we_code :: "GeneralErrorCodes option"
  we_message :: "string option"

record status_body =
  body_status :: "string option"
  body_error :: "wire_error option"

record wire_step =
  ws_summary :: string
  ws_sql :: string
  ws_cte_name :: string

record wire_response =
  wr_description :: "string option"
  wr_steps :: "wire_step list option"

record ask_detail_body = status_body +
  body_type :: "string option"
  body_response :: "wire_response option"

record status_and_error =
  sae_status :: string
  sae_error :: "RubixError option"

text \<open>
  \<^verbatim>\<open>transformStatusAndError\<close>. \<^verbatim>\<open>!status\<close> holds for the absent and for the empty status. A
  code is truthy unless it is absent or the empty string.
\<close>

definition truthy_code :: "GeneralErrorCodes option \<Rightarrow> bool" where
  "truthy_code code = (code \<noteq> None \<and> code \<noteq> Some (OtherCode []))"

definition transformStatusAndError ::
  "'a status_body_scheme \<Rightarrow> adaptor_error + status_and_error" where
  "transformStatusAndError body =
     (case body_status body of
        None \<Rightarrow> Inl (UnknownAskStatus None)
      | Some s \<Rightarrow>
          (let status = toUpperCase s in
           if status = [] then Inl (UnknownAskStatus (Some s))
           else
             (let code = (case body_error body of None \<Rightarrow> None | Some e \<Rightarrow> we_code e);
                  isShowAIServiceErrorMessage =
                    (code = Some NO_RELEVANT_SQL \<or> code = Some AI_SERVICE_UNDEFINED_ERROR);
                  formattedError =
                    (if truthy_code code
                     then Some (Errors_create (the code)
                       (if isShowAIServiceErrorMessage
                        then (case body_error body of None \<Rightarrow> None | Some e \<Rightarrow> we_message e)
                        else None))
                     else None)
              in Inr \<lparr>sae_status = status, sae_error = formattedError\<rparr>)))"

record AskDetailResponse =
  resp_description :: "string option"
  resp_steps :: "step list"

record AskDetailResult =
  adr_type :: "string option"
  adr_status :: string
  adr_error :: "RubixError option"
  adr_response :: AskDetailResponse

definition transformAskDetailResult ::
  "ask_detail_body \<Rightarrow> adaptor_error + AskDetailResult" where
  "transformAskDetailResult body =
     (case transformStatusAndError body of
        Inl e \<Rightarrow> Inl e
      | Inr se \<Rightarrow>
          Inr \<lparr>adr_type = body_type body,
               adr_status = sae_status se,
               adr_error = sae_error se,
               adr_response =
                 \<lparr>resp_description =
                    (case body_response body of None \<Rightarrow> None | Some r \<Rightarrow> wr_description r),
                  resp_steps =
                    map (\<lambda>st. \<lparr>cteName = ws_cte_name st, summary = ws_summary st,
                                sql = ws_sql st\<rparr>)
                      (case body_response body of
                         None \<Rightarrow> []
                       | Some r \<Rightarrow> (case wr_steps r of None \<Rightarrow> [] | Some ss \<Rightarrow> ss))\<rparr>\<rparr>)"

text \<open>
  \<^verbatim>\<open>getAskDetailResult\<close>, applied to what its request yields: the rejection of the
  request and the exception of the transformation are both rethrown.
\<close>

definition getAskDetailResult ::
  "ask_detail_body http_reply \<Rightarrow> adaptor_error + AskDetailResult" where
  "getAskDetailResult r =
     (case r of
        Rejected m \<Rightarrow> Inl (RequestError m)
      | Reply body \<Rightarrow> transformAskDetailResult body)"

section \<open>The background tracker of breakdowns\<close>

text \<open>
  \<^verbatim>\<open>tasks\<close> is an object keyed by response identifiers: an association list in ascending
  order of the keys, the order in which \<^verbatim>\<open>Object.values\<close> enumerates integer keys.
\<close>

fun tasks_set :: "(nat \<times> 'v) list \<Rightarrow> nat \<Rightarrow> 'v \<Rightarrow> (nat \<times> 'v) list" where
  "tasks_set [] k v = [(k, v)]"
| "tasks_set ((k', v') # rest) k v =
     (if k < k' then (k, v) # (k', v') # rest
      else if k = k' then (k, v) # rest
      else (k', v') # tasks_set rest k v)"

definition tasks_delete :: "(nat \<times> 'v) list \<Rightarrow> nat \<Rightarrow> (nat \<times> 'v) list" where
  "tasks_delete ts k = filter (\<lambda>kv. fst kv \<noteq> k) ts"

definition Object_values :: "(nat \<times> 'v) list \<Rightarrow> 'v list" where
  "Object_values ts = map snd ts"

text \<open>
  A job of a tick that is suspended at one of the two \<^verbatim>\<open>await\<close>s of its body, with the
  local variables it holds: at the request for the result (\<open>AwaitFetch threadResponse
  breakdownDetail\<close>), or at \<^verbatim>\<open>updateOne\<close> (\<open>AwaitUpdate threadResponse
  updatedBreakdownDetail result\<close>).
\<close>

datatype job =
    AwaitFetch ThreadResponse breakdownDetail
  | AwaitUpdate ThreadResponse breakdownDetail AskDetailResult

fun job_id :: "job \<Rightarrow> nat" where
  "job_id (AwaitFetch threadResponse breakdownDetail) = tr_id threadResponse"
| "job_id (AwaitUpdate threadResponse updatedBreakdownDetail result) = tr_id threadResponse"

text \<open>
  The reason of a job whose promise is rejected; \<^verbatim>\<open>Promise.allSettled\<close> collects it for the
  error log.
\<close>

datatype rejection =
    NoBreakdownDetail
  | FetchFailed adaptor_error
  | UpdateFailed string

text \<open>
  The state of the tracker and of what it acts on: its two fields \<open>tasks\<close> and
  \<open>runningJobs\<close>, the suspended jobs, the jobs that were rejected (response identifier and
  reason), the requests for a result that were sent (response identifier and query
  identifier), the telemetry events sent (question, error, success), and the repository.
\<close>

record tracker =
  tasks :: "(nat \<times> ThreadResponse) list"
  runningJobs :: "nat set"
  pending :: "job list"
  settled_rejected :: "(nat \<times> rejection) list"
  fetch_calls :: "(nat \<times> string) list"
  telemetry_events :: "(string option \<times> RubixError option \<times> bool) list"
  store :: repository

definition remove_nth :: "nat \<Rightarrow> 'a list \<Rightarrow> 'a list" where
  "remove_nth n xs = take n xs @ drop (Suc n) xs"

definition addTask :: "ThreadResponse \<Rightarrow> tracker \<Rightarrow> tracker" where
  "addTask threadResponse t =
     t\<lparr>tasks := tasks_set (tasks t) (tr_id threadResponse) threadResponse\<rparr>"

text \<open>
  A job of a tick, from its start to its first \<^verbatim>\<open>await\<close>: it returns at once when the
  response is marked as running; otherwise it sets the mark and sends the request. A
  response without breakdown detail makes the job throw after the mark is set.
\<close>

definition start_job :: "ThreadResponse \<Rightarrow> tracker \<Rightarrow> tracker" where
  "start_job threadResponse t =
     (if tr_id threadResponse \<in> runningJobs t then t
      else
        (let t1 = t\<lparr>runningJobs := insert (tr_id threadResponse) (runningJobs t)\<rparr> in
         case tr_breakdownDetail threadResponse of
           None \<Rightarrow>
             t1\<lparr>settled_rejected :=
                   settled_rejected t1 @ [(tr_id threadResponse, NoBreakdownDetail)]\<rparr>
         | Some breakdownDetail \<Rightarrow>
             t1\<lparr>pending := pending t1 @ [AwaitFetch threadResponse breakdownDetail],
                fetch_calls :=
                  fetch_calls t1 @ [(tr_id threadResponse, bd_queryId breakdownDetail)]\<rparr>))"

text \<open>
  The callback of \<^verbatim>\<open>setInterval\<close>: the jobs of the tasks are started one after the other,
  each up to its first \<^verbatim>\<open>await\<close>.
\<close>

definition tick :: "tracker \<Rightarrow> tracker" where
  "tick t = fold start_job (Object_values (tasks t)) t"

definition updatedBreakdownDetail :: "breakdownDetail \<Rightarrow> AskDetailResult \<Rightarrow> breakdownDetail" where
  "updatedBreakdownDetail breakdownDetail result =
     \<lparr>bd_queryId = bd_queryId breakdownDetail,
      bd_status = Some (adr_status result),
      bd_error = adr_error result,
      bd_description = resp_description (adr_response result),
      bd_steps = Some (resp_steps (adr_response result))\<rparr>"

text \<open>
  The job \<open>n\<close> resumes from the request for the result, which yields \<open>reply\<close>: the job is
  rejected when the adaptor throws; it releases the mark and ends when the status is the
  one of its breakdown detail; otherwise it calls \<^verbatim>\<open>updateOne\<close> and is suspended again.
\<close>

definition fetch_settled :: "nat \<Rightarrow> ask_detail_body http_reply \<Rightarrow> tracker \<Rightarrow> tracker" where
  "fetch_settled n reply t =
     (if n < length (pending t) then
        (case pending t ! n of
           AwaitFetch threadResponse breakdownDetail \<Rightarrow>
             (case getAskDetailResult reply of
                Inl e \<Rightarrow>
                  t\<lparr>pending := remove_nth n (pending t),
                    settled_rejected :=
                      settled_rejected t @ [(tr_id threadResponse, FetchFailed e)]\<rparr>
              | Inr result \<Rightarrow>
                  if bd_status breakdownDetail = Some (adr_status result)
                  then t\<lparr>runningJobs := runningJobs t - {tr_id threadResponse},
                         pending := remove_nth n (pending t)\<rparr>
                  else t\<lparr>pending := (pending t)
                         [n := AwaitUpdate threadResponse
                                 (updatedBreakdownDetail breakdownDetail result) result]\<rparr>)
         | AwaitUpdate threadResponse detail result \<Rightarrow> t)
      else t)"

text \<open>
  The job \<open>n\<close> resumes from \<^verbatim>\<open>updateOne\<close>, which has written the detail: when the status
  is final it sends the telemetry event and deletes the task; it releases the mark.
\<close>

definition update_resolved :: "nat \<Rightarrow> tracker \<Rightarrow> tracker" where
  "update_resolved n t =
     (if n < length (pending t) then
        (case pending t ! n of
           AwaitFetch threadResponse breakdownDetail \<Rightarrow> t
         | AwaitUpdate threadResponse detail result \<Rightarrow>
             (let t1 = t\<lparr>store := fst (updateOne (store t) (tr_id threadResponse)
                                        (PatchBreakdownDetail detail))\<rparr>;
                  t2 = (if isFinalized (adr_status result)
                        then t1\<lparr>telemetry_events := telemetry_events t1 @
                                  [(tr_question threadResponse, adr_error result,
                                    adr_status result = AskResultStatus_FINISHED)],
                                tasks := tasks_delete (tasks t1) (tr_id threadResponse)\<rparr>
                        else t1)
              in t2\<lparr>runningJobs := runningJobs t2 - {tr_id threadResponse},
                    pending := remove_nth n (pending t2)\<rparr>))
      else t)"

text \<open>
  \<^verbatim>\<open>updateOne\<close> of the job \<open>n\<close> is rejected with a message: nothing is written and the job
  is rejected.
\<close>

definition update_rejected :: "nat \<Rightarrow> string \<Rightarrow> tracker \<Rightarrow> tracker" where
  "update_rejected n m t =
     (if n < length (pending t) then
        (case pending t ! n of
           AwaitFetch threadResponse breakdownDetail \<Rightarrow> t
         | AwaitUpdate threadResponse detail result \<Rightarrow>
             t\<lparr>pending := remove_nth n (pending t),
               settled_rejected :=
                 settled_rejected t @ [(tr_id threadResponse, UpdateFailed m)]\<rparr>)
      else t)"

text \<open>
  The two places of the service that register a task, each taken as one event (the
  tracker is not exported: \<^verbatim>\<open>addTask\<close> has no other caller).
  \<open>generateThreadResponseBreakdown\<close>: \<open>reply\<close> is what \<^verbatim>\<open>generateAskDetail\<close> yields (the
  query identifier); a response that is not found and a rejected request throw before
  anything is written. The task registered is the response that \<^verbatim>\<open>updateOne\<close> returns.
\<close>

definition generateThreadResponseBreakdown :: "nat \<Rightarrow> string http_reply \<Rightarrow> tracker \<Rightarrow> tracker" where
  "generateThreadResponseBreakdown threadResponseId reply t =
     (case findOneBy (store t) threadResponseId of
        None \<Rightarrow> t
      | Some threadResponse \<Rightarrow>
          (case reply of
             Rejected m \<Rightarrow> t
           | Reply queryId \<Rightarrow>
               (case updateOne (store t) (tr_id threadResponse)
                       (PatchBreakdownDetail
                          \<lparr>bd_queryId = queryId, bd_status = Some UNDERSTANDING,
                           bd_error = None, bd_description = None, bd_steps = None\<rparr>) of
                  (store', None) \<Rightarrow> t\<lparr>store := store'\<rparr>
                | (store', Some updatedThreadResponse) \<Rightarrow>
                    addTask updatedThreadResponse (t\<lparr>store := store'\<rparr>))))"

text \<open>
  \<open>initialize\<close>: the stored responses whose breakdown has a status that is not final are
  registered.
\<close>

definition unfinished :: "ThreadResponse \<Rightarrow> bool" where
  "unfinished threadResponse =
     (case tr_breakdownDetail threadResponse of
        None \<Rightarrow> False
      | Some d \<Rightarrow>
          (case bd_status d of
             None \<Rightarrow> False
           | Some s \<Rightarrow> s \<noteq> [] \<and> \<not> isFinalized s))"

definition initialize :: "tracker \<Rightarrow> tracker" where
  "initialize t = fold addTask (filter unfinished (findAll (store t))) t"

text \<open>
  What can happen to the tracker, one event at a time: the control flow is single-threaded,
  so the code between two \<^verbatim>\<open>await\<close>s runs without interruption. The timer fires
  (\<open>Tick\<close>); the service registers tasks; the request of the suspended job at position
  \<open>n\<close> yields a reply (\<open>FetchSettled\<close>); the \<^verbatim>\<open>updateOne\<close> of the suspended job at position
  \<open>n\<close> returns (\<open>UpdateResolved\<close>) or is rejected with a message (\<open>UpdateRejected\<close>). An
  event for a job that is not there, or not at that \<^verbatim>\<open>await\<close>, leaves the state as it is.
  The events come in any order and any number: a tick may come while jobs are suspended.
\<close>

datatype event =
    Tick
  | Initialize
  | GenerateThreadResponseBreakdown nat "string http_reply"
  | FetchSettled nat "ask_detail_body http_reply"
  | UpdateResolved nat
  | UpdateRejected nat string

fun tracker_step :: "event \<Rightarrow> tracker \<Rightarrow> tracker" where
  "tracker_step Tick t = tick t"
| "tracker_step Initialize t = initialize t"
| "tracker_step (GenerateThreadResponseBreakdown i reply) t = generateThreadResponseBreakdown i reply t"
| "tracker_step (FetchSettled n reply) t = fetch_settled n reply t"
| "tracker_step (UpdateResolved n) t = update_resolved n t"
| "tracker_step (UpdateRejected n m) t = update_rejected n m t"

definition run :: "event list \<Rightarrow> tracker \<Rightarrow> tracker" where
  "run evs t = fold tracker_step evs t"

text \<open>
  The tracker as its constructor leaves it, over a given repository.
\<close>

definition init :: "repository \<Rightarrow> tracker" where
  "init repo =
     \<lparr>tasks = [], runningJobs = {}, pending = [], settled_rejected = [], fetch_calls = [],
      telemetry_events = [], store = repo\<rparr>"

definition in_flight :: "tracker \<Rightarrow> nat \<Rightarrow> job list" where
  "in_flight t e = filter (\<lambda>j. job_id j = e) (pending t)"

definition polls_sent :: "tracker \<Rightarrow> nat \<Rightarrow> (nat \<times> string) list" where
  "polls_sent t e = filter (\<lambda>c. fst c = e) (fetch_calls t)"

definition tracked :: "tracker \<Rightarrow> nat \<Rightarrow> bool" where
  "tracked t e = (e \<in> fst ` set (tasks t))"

definition persisted_status :: "tracker \<Rightarrow> nat \<Rightarrow> string option" where
  "persisted_status t e =
     (case findOneBy (store t) e of
        None \<Rightarrow> None
      | Some r \<Rightarrow> (case tr_breakdownDetail r of None \<Rightarrow> None | Some d \<Rightarrow> bd_status d))"

text \<open>
  The completion of a poll of the entity \<open>e\<close> that observed a final status: the event
  resumes, from its write, a job of \<open>e\<close> whose fetched result has a final status.
\<close>

definition completes_final_poll :: "event \<Rightarrow> tracker \<Rightarrow> nat \<Rightarrow> bool" where
  "completes_final_poll ev t e =
     (case ev of
        UpdateResolved n \<Rightarrow>
          n < length (pending t) \<and>
          (case pending t ! n of
             AwaitFetch threadResponse breakdownDetail \<Rightarrow> False
           | AwaitUpdate threadResponse detail result \<Rightarrow>
               tr_id threadResponse = e \<and> isFinalized (adr_status result))
      | _ \<Rightarrow> False)"

text \<open>
  The event ends a job of the entity \<open>e\<close> without rejecting it: the job resumes from its
  request with an unchanged status, or from its write.
\<close>

definition completes_poll :: "event \<Rightarrow> tracker \<Rightarrow> nat \<Rightarrow> bool" where
  "completes_poll ev t e =
     (case ev of
        FetchSettled n reply \<Rightarrow>
          n < length (pending t) \<and>
          (case pending t ! n of
             AwaitFetch threadResponse breakdownDetail \<Rightarrow>
               tr_id threadResponse = e \<and>
               (case getAskDetailResult reply of
                  Inl err \<Rightarrow> False
                | Inr result \<Rightarrow> bd_status breakdownDetail = Some (adr_status result))
           | AwaitUpdate threadResponse detail result \<Rightarrow> False)
      | UpdateResolved n \<Rightarrow>
          n < length (pending t) \<and>
          (case pending t ! n of
             AwaitFetch threadResponse breakdownDetail \<Rightarrow> False
           | AwaitUpdate threadResponse detail result \<Rightarrow> tr_id threadResponse = e)
      | _ \<Rightarrow> False)"

text \<open>
  The invariant of the guard: the suspended jobs are jobs of distinct responses, each
  marked as running; the job of a request holds the breakdown detail of its response,
  whose status is not final.
\<close>

definition job_ok :: "job \<Rightarrow> bool" where
  "job_ok j =
     (case j of
        AwaitFetch threadResponse breakdownDetail \<Rightarrow>
          tr_breakdownDetail threadResponse = Some breakdownDetail \<and> unfinished threadResponse
      | AwaitUpdate threadResponse detail result \<Rightarrow> True)"

definition guard_inv :: "tracker \<Rightarrow> bool" where
  "guard_inv t =
     (distinct (map job_id (pending t)) \<and> job_id ` set (pending t) \<subseteq> runningJobs t
      \<and> list_all job_ok (pending t) \<and> list_all unfinished (Object_values (tasks t))
      \<and> list_all (\<lambda>kv. fst kv = tr_id (snd kv)) (tasks t)
      \<and> job_id ` set (pending t) \<subseteq> fst ` set (tasks t))"


section \<open>Example data of the tracker\<close>

text \<open>
  A repository with the response 42, and the body of a result with a given status.
\<close>

definition response42 :: ThreadResponse where
  "response42 =
     \<lparr>tr_id = 42, tr_threadId = 1, tr_question = Some ''How many orders?'',
      tr_sql = Some ''SELECT 1'', tr_askingTaskId = None, tr_breakdownDetail = None,
      tr_answerDetail = None, tr_chartDetail = None, tr_adjustment = None\<rparr>"

definition repository42 :: repository where
  "repository42 = \<lparr>rows = [response42], writes = []\<rparr>"

definition body_with_status :: "string option \<Rightarrow> ask_detail_body" where
  "body_with_status s =
     \<lparr>body_status = s, body_error = None, body_type = None, body_response = None\<rparr>"

text \<open>
  The response 42 is registered and the first tick has sent the request of its poll;
  \<open>tracked42\<close> is the response as the tracker holds it.
\<close>

definition polling42 :: "event list" where
  "polling42 = [GenerateThreadResponseBreakdown 42 (Reply ''qid''), Tick]"

definition tracked42 :: ThreadResponse where
  "tracked42 = response42\<lparr>tr_breakdownDetail := Some
     \<lparr>bd_queryId = ''qid'', bd_status = Some ''UNDERSTANDING'', bd_error = None,
      bd_description = None, bd_steps = None\<rparr>\<rparr>"

text \<open>
  The breakdown detail of the response 42 as registered, the result and the updated
  detail for a given status, and a run in which the poll of the response 42 has fetched
  \<open>SEARCHING\<close>, the status was written, and the next tick has sent the next request.
\<close>

definition understanding_detail :: breakdownDetail where
  "understanding_detail =
     \<lparr>bd_queryId = ''qid'', bd_status = Some ''UNDERSTANDING'', bd_error = None,
      bd_description = None, bd_steps = None\<rparr>"

definition stale42 :: "event list" where
  "stale42 = polling42 @
     [FetchSettled 0 (Reply (body_with_status (Some ''searching''))), UpdateResolved 0, Tick]"

definition result_with_status :: "string \<Rightarrow> AskDetailResult" where
  "result_with_status s =
     \<lparr>adr_type = None, adr_status = s, adr_error = None,
      adr_response = \<lparr>resp_description = None, resp_steps = []\<rparr>\<rparr>"

definition detail_with_status :: "string \<Rightarrow> breakdownDetail" where
  "detail_with_status s =
     \<lparr>bd_queryId = ''qid'', bd_status = Some s, bd_error = None, bd_description = None,
      bd_steps = Some []\<rparr>"

section \<open>Properties of \<^verbatim>\<open>constructCteSql\<close>\<close>

lemma forEach_steps_shape:
  "2 \<le> length xs \<Longrightarrow> index + length xs = n \<Longrightarrow>
   forEach_steps n xs index acc =
     acc @ concat (map cte_with_comma (butlast (butlast xs)))
       @ cte_without_comma (last (butlast xs)) @ trailing_sql (last xs)"
proof (induction xs arbitrary: index acc)
  case Nil
  then show ?case by simp
next
  case (Cons x xs)
  show ?case
  proof (cases "2 \<le> length xs")
    case True
    then have ne: "xs \<noteq> []" "butlast xs \<noteq> []"
      by (auto simp: butlast_conv_take)
    have cb: "forEach_callback n acc x index = acc @ cte_with_comma x"
      using True Cons.prems(2)
      by (auto simp: forEach_callback_def cte_with_comma_def)
    have "forEach_steps n xs (index + 1) (acc @ cte_with_comma x) =
        (acc @ cte_with_comma x) @ concat (map cte_with_comma (butlast (butlast xs)))
          @ cte_without_comma (last (butlast xs)) @ trailing_sql (last xs)"
      using Cons.IH [OF True, of "index + 1" "acc @ cte_with_comma x"] Cons.prems(2)
      by simp
    then show ?thesis
      using ne cb by simp
  next
    case False
    then obtain y where xs: "xs = [y]"
      using Cons.prems(1) by (cases xs; cases "tl xs") auto
    have n: "n = index + 2"
      using Cons.prems(2) xs by simp
    show ?thesis
      by (simp add: xs n forEach_callback_def cte_without_comma_def trailing_sql_def)
  qed
qed

text \<open>
  C5 (as amended). Whenever at least two steps are emitted, that is, the cutoff is a
  valid index that is at least 1, or the cutoff is omitted and the list has at least two
  steps, \<open>constructCteSql\<close> returns the \<open>WITH\<close> clause over the emitted steps: it starts
  with \<open>WITH \<close>, every emitted step but the last two is \<open>name AS (sql),\<close>, the
  second-to-last is \<open>name AS (sql)\<close> with no comma, the last is un-wrapped, each with the
  comment line of its summary; the emitted steps are the first \<open>cutoff + 1\<close> steps (all of
  them when the cutoff is omitted).
\<close>

theorem constructCteSql_with_clause:
  assumes "case stepIndex of None \<Rightarrow> 2 \<le> length steps
           | Some i \<Rightarrow> 1 \<le> i \<and> i < int (length steps)"
  shows "constructCteSql steps stepIndex = Inr (with_clause (slice_steps steps stepIndex))
         \<and> starts_with ''WITH '' (constructCteSql steps stepIndex)
         \<and> length (slice_steps steps stepIndex) =
             (case stepIndex of None \<Rightarrow> length steps | Some i \<Rightarrow> nat (i + 1))
         \<and> slice_steps steps stepIndex =
             (case stepIndex of None \<Rightarrow> steps | Some i \<Rightarrow> take (nat (i + 1)) steps)"
proof -
  let ?e = "slice_steps steps stepIndex"
  have len: "length ?e = (case stepIndex of None \<Rightarrow> length steps | Some i \<Rightarrow> nat (i + 1))"
    using assms by (auto simp: slice_steps_def split: option.splits)
  have two: "2 \<le> length ?e"
    using assms len by (auto split: option.splits)
  have shape: "forEach_steps (length ?e) ?e 0 ''WITH '' = with_clause ?e"
    using forEach_steps_shape [OF two, of 0 "length ?e" "''WITH ''"]
    by (simp add: with_clause_def)
  have res: "constructCteSql steps stepIndex = Inr (with_clause ?e)"
    using assms two shape
    by (cases stepIndex) (auto simp: constructCteSql_def Let_def)
  have pre: "starts_with ''WITH '' (Inr (with_clause ?e))"
    by (simp add: starts_with_def with_clause_def)
  show ?thesis
    using res pre len by (simp add: slice_steps_def)
qed

theorem constructCteSql_with_clause_witness:
  "constructCteSql
     [\<lparr>cteName = ''a'', summary = ''first'', sql = ''SELECT 1''\<rparr>,
      \<lparr>cteName = ''b'', summary = ''second'', sql = ''SELECT 2''\<rparr>,
      \<lparr>cteName = ''c'', summary = ''third'', sql = ''SELECT 3''\<rparr>,
      \<lparr>cteName = ''d'', summary = ''fourth'', sql = ''SELECT 4''\<rparr>] (Some 2)
   = Inr (''WITH a AS'' @ newline @ ''-- first'' @ newline @ ''(SELECT 1),b AS'' @ newline
          @ ''-- second'' @ newline @ ''(SELECT 2)'' @ newline @ ''-- third'' @ newline
          @ ''SELECT 3'')"
  using constructCteSql_with_clause [where stepIndex = "Some 2" and steps =
     "[\<lparr>cteName = ''a'', summary = ''first'', sql = ''SELECT 1''\<rparr>,
       \<lparr>cteName = ''b'', summary = ''second'', sql = ''SELECT 2''\<rparr>,
       \<lparr>cteName = ''c'', summary = ''third'', sql = ''SELECT 3''\<rparr>,
       \<lparr>cteName = ''d'', summary = ''fourth'', sql = ''SELECT 4''\<rparr>]"]
  by (simp add: slice_steps_def with_clause_def cte_with_comma_def cte_without_comma_def
      trailing_sql_def)

text \<open>
  The claim C5 as the specification states it fails at the cutoff 0 of a list of two
  steps: one step is emitted and the result is the bare annotated statement, without
  \<open>WITH\<close>.
\<close>

theorem constructCteSql_cutoff_zero_counterexample:
  "constructCteSql
     [\<lparr>cteName = ''a'', summary = ''first'', sql = ''SELECT 1''\<rparr>,
      \<lparr>cteName = ''b'', summary = ''second'', sql = ''SELECT 2''\<rparr>] (Some 0)
     = Inr (''-- first'' @ newline @ ''SELECT 1'')
   \<and> \<not> starts_with ''WITH ''
       (constructCteSql
         [\<lparr>cteName = ''a'', summary = ''first'', sql = ''SELECT 1''\<rparr>,
          \<lparr>cteName = ''b'', summary = ''second'', sql = ''SELECT 2''\<rparr>] (Some 0))"
  by (simp add: constructCteSql_def slice_steps_def starts_with_def newline_def)

text \<open>
  C6. For a list of exactly one step, with the cutoff omitted or 0, the result is exactly
  \<open>-- summary\<close>, a line feed and the statement of that step; no \<open>WITH \<close> is put in front.
\<close>

theorem constructCteSql_single_step:
  "constructCteSql [st] None = Inr (''-- '' @ summary st @ newline @ sql st)
   \<and> constructCteSql [st] (Some 0) = Inr (''-- '' @ summary st @ newline @ sql st)
   \<and> \<not> starts_with ''WITH '' (constructCteSql [st] None)
   \<and> \<not> starts_with ''WITH '' (constructCteSql [st] (Some 0))"
  by (simp add: constructCteSql_def slice_steps_def starts_with_def)

text \<open>
  C7. A provided cutoff that is negative, or at least the length of the list, makes
  \<open>constructCteSql\<close> throw the validation error; no string is returned.
\<close>

theorem constructCteSql_invalid_stepIndex:
  "i < 0 \<or> int (length steps) \<le> i \<Longrightarrow>
   constructCteSql steps (Some i) = Inl (InvalidStepIndex i)"
  by (simp add: constructCteSql_def)

theorem constructCteSql_invalid_stepIndex_witness:
  "constructCteSql [\<lparr>cteName = ''a'', summary = ''first'', sql = ''SELECT 1''\<rparr>] (Some 1)
     = Inl (InvalidStepIndex 1)
   \<and> constructCteSql [\<lparr>cteName = ''a'', summary = ''first'', sql = ''SELECT 1''\<rparr>] (Some (- 1))
     = Inl (InvalidStepIndex (- 1))"
  using constructCteSql_invalid_stepIndex
          [of 1 "[\<lparr>cteName = ''a'', summary = ''first'', sql = ''SELECT 1''\<rparr>]"]
        constructCteSql_invalid_stepIndex
          [of "- 1" "[\<lparr>cteName = ''a'', summary = ''first'', sql = ''SELECT 1''\<rparr>]"]
  by simp

section \<open>Properties of the operations on stored responses\<close>

lemma max_id_ge: "r \<in> set rs \<Longrightarrow> tr_id r \<le> max_id rs"
  by (induction rs) auto

lemma find_append_Some: "find P xs = Some x \<Longrightarrow> find P (xs @ ys) = Some x"
  by (induction xs) (auto split: if_splits)

lemma find_append_None: "find P xs = None \<Longrightarrow> find P (xs @ ys) = find P ys"
  by (induction xs) (auto split: if_splits)

lemma findOneBy_id: "findOneBy repo i = Some r \<Longrightarrow> tr_id r = i \<and> r \<in> set (rows repo)"
  by (auto simp: findOneBy_def find_Some_iff)

lemma find_map_other:
  "find (\<lambda>r. tr_id r = j) (map (\<lambda>r. if tr_id r = i then f r else r) xs)
     = (if j = i then map_option f (find (\<lambda>r. tr_id r = j) xs) else find (\<lambda>r. tr_id r = j) xs)"
  if "\<And>r. tr_id (f r) = tr_id r"
  using that by (induction xs) auto

text \<open>
  C8. For an existing response \<open>i\<close>, \<open>adjustThreadResponseWithSQL\<close> with a new SQL text
  creates a new row: it is appended under an identifier that no row had (so it is not
  \<open>i\<close>), in the same thread and with the same question, its \<open>sql\<close> is the new text, and
  its adjustment has type \<open>APPLY_SQL\<close> and a payload whose \<open>originalThreadResponseId\<close>
  is \<open>i\<close>. The rows that were there are the same afterwards: the original response is
  found unchanged, its \<open>sql\<close> and every other property.
\<close>

theorem adjustThreadResponseWithSQL_new_response:
  assumes "findOneBy repo i = Some response"
  shows "case adjustThreadResponseWithSQL repo i input_sql of
           Inl e \<Rightarrow> False
         | Inr (repo', new) \<Rightarrow>
             rows repo' = rows repo @ [new]
             \<and> writes repo' = writes repo @ [Created (tr_id new)]
             \<and> tr_id new \<noteq> i
             \<and> tr_id new \<notin> tr_id ` set (rows repo)
             \<and> findOneBy repo' (tr_id new) = Some new
             \<and> tr_threadId new = tr_threadId response
             \<and> tr_question new = tr_question response
             \<and> tr_sql new = Some input_sql
             \<and> tr_adjustment new = Some
                 \<lparr>adj_type = APPLY_SQL,
                  adj_payload = \<lparr>originalThreadResponseId = Some i,
                                 payload_sql = Some input_sql\<rparr>\<rparr>
             \<and> findOneBy repo' i = Some response"
proof -
  from assms have idr: "tr_id response = i" and mem: "response \<in> set (rows repo)"
    by (auto dest: findOneBy_id)
  have fresh: "Suc (max_id (rows repo)) \<notin> tr_id ` set (rows repo)"
    using max_id_ge by fastforce
  then have ne: "Suc (max_id (rows repo)) \<noteq> i"
    using idr mem by auto
  have none: "find (\<lambda>r. tr_id r = Suc (max_id (rows repo))) (rows repo) = None"
    using fresh by (force simp: find_None_iff)
  show ?thesis
    using assms idr fresh ne
    by (simp add: adjustThreadResponseWithSQL_def createOne_def Let_def new_fields_def
        findOneBy_def find_append_Some find_append_None [OF none])
qed


theorem adjustThreadResponseWithSQL_new_response_witness:
  "findOneBy example_repository 7 = Some example_response
   \<and> adjustThreadResponseWithSQL example_repository 7 ''SELECT 2'' =
       Inr (\<lparr>rows = [example_response,
                      \<lparr>tr_id = 8, tr_threadId = 3, tr_question = Some ''How many orders?'',
                       tr_sql = Some ''SELECT 2'', tr_askingTaskId = None,
                       tr_breakdownDetail = None, tr_answerDetail = None,
                       tr_chartDetail = None,
                       tr_adjustment = Some \<lparr>adj_type = APPLY_SQL,
                         adj_payload = \<lparr>originalThreadResponseId = Some 7,
                                        payload_sql = Some ''SELECT 2''\<rparr>\<rparr>\<rparr>],
              writes = [Created 8]\<rparr>,
            \<lparr>tr_id = 8, tr_threadId = 3, tr_question = Some ''How many orders?'',
             tr_sql = Some ''SELECT 2'', tr_askingTaskId = None,
             tr_breakdownDetail = None, tr_answerDetail = None,
             tr_chartDetail = None,
             tr_adjustment = Some \<lparr>adj_type = APPLY_SQL,
               adj_payload = \<lparr>originalThreadResponseId = Some 7,
                              payload_sql = Some ''SELECT 2''\<rparr>\<rparr>\<rparr>)
   \<and> (case adjustThreadResponseWithSQL example_repository 7 ''SELECT 2'' of
         Inl e \<Rightarrow> False
       | Inr (repo', new) \<Rightarrow>
           findOneBy repo' 7 = Some example_response \<and> tr_id new \<noteq> 7)"
proof -
  have h: "findOneBy example_repository 7 = Some example_response"
    by (simp add: findOneBy_def example_repository_def example_response_def)
  have c: "case adjustThreadResponseWithSQL example_repository 7 ''SELECT 2'' of
         Inl e \<Rightarrow> False
       | Inr (repo', new) \<Rightarrow>
           findOneBy repo' 7 = Some example_response \<and> tr_id new \<noteq> 7"
    using adjustThreadResponseWithSQL_new_response [OF h, of "''SELECT 2''"]
    by (auto split: sum.splits)
  have v: "adjustThreadResponseWithSQL example_repository 7 ''SELECT 2'' =
       Inr (\<lparr>rows = [example_response,
                      \<lparr>tr_id = 8, tr_threadId = 3, tr_question = Some ''How many orders?'',
                       tr_sql = Some ''SELECT 2'', tr_askingTaskId = None,
                       tr_breakdownDetail = None, tr_answerDetail = None,
                       tr_chartDetail = None,
                       tr_adjustment = Some \<lparr>adj_type = APPLY_SQL,
                         adj_payload = \<lparr>originalThreadResponseId = Some 7,
                                        payload_sql = Some ''SELECT 2''\<rparr>\<rparr>\<rparr>],
              writes = [Created 8]\<rparr>,
            \<lparr>tr_id = 8, tr_threadId = 3, tr_question = Some ''How many orders?'',
             tr_sql = Some ''SELECT 2'', tr_askingTaskId = None,
             tr_breakdownDetail = None, tr_answerDetail = None,
             tr_chartDetail = None,
             tr_adjustment = Some \<lparr>adj_type = APPLY_SQL,
               adj_payload = \<lparr>originalThreadResponseId = Some 7,
                              payload_sql = Some ''SELECT 2''\<rparr>\<rparr>\<rparr>)"
    by (simp add: adjustThreadResponseWithSQL_def createOne_def Let_def new_fields_def
        findOneBy_def example_repository_def example_response_def)
  show ?thesis
    using h c v by blast
qed

lemma updateOne_found:
  assumes "findOneBy repo i = Some response"
  shows "snd (updateOne repo i p) = Some (apply_patch p response)"
    and "writes (fst (updateOne repo i p)) = writes repo @ [Updated i p]"
    and "findOneBy (fst (updateOne repo i p)) i = Some (apply_patch p response)"
proof -
  have keep: "\<And>r. tr_id (apply_patch p r) = tr_id r"
    by (cases p) simp_all
  show "snd (updateOne repo i p) = Some (apply_patch p response)"
    using assms by (simp add: updateOne_def)
  show "writes (fst (updateOne repo i p)) = writes repo @ [Updated i p]"
    by (simp add: updateOne_def)
  show "findOneBy (fst (updateOne repo i p)) i = Some (apply_patch p response)"
    using assms find_map_other [of "apply_patch p" i i "rows repo", OF keep]
    by (simp add: updateOne_def findOneBy_def)
qed

text \<open>
  C10. For an existing response, when the status of its answer detail is already the
  requested one, \<open>changeThreadResponseAnswerDetailStatus\<close> leaves the repository as it
  is (no write is logged) and returns \<^verbatim>\<open>undefined\<close>, here \<open>None\<close>, not a response. When
  the requested status differs (or the response has no answer detail) there is exactly
  one \<^verbatim>\<open>updateOne\<close>, and the result is the updated response, whose answer detail has the
  requested status.
\<close>

theorem changeThreadResponseAnswerDetailStatus_same_status:
  assumes "findOneBy repo i = Some response"
  shows "(answerDetail_status response = Some status \<longrightarrow>
            changeThreadResponseAnswerDetailStatus repo i status content = Inr (repo, None))
         \<and> (answerDetail_status response \<noteq> Some status \<longrightarrow>
            (case changeThreadResponseAnswerDetailStatus repo i status content of
               Inl e \<Rightarrow> False
             | Inr (repo', result) \<Rightarrow>
                 writes repo' = writes repo @
                   [Updated i (PatchAnswerDetail
                      (spread_answerDetail (tr_answerDetail response) status content))]
                 \<and> result = Some (response\<lparr>tr_answerDetail :=
                      Some (spread_answerDetail (tr_answerDetail response) status content)\<rparr>)
                 \<and> findOneBy repo' i = result
                 \<and> map_option answerDetail_status result = Some (Some status)))"
proof -
  let ?p = "PatchAnswerDetail (spread_answerDetail (tr_answerDetail response) status content)"
  have st: "answerDetail_status (apply_patch ?p response) = Some status"
    by (simp add: answerDetail_status_def spread_answerDetail_def split: option.splits)
  show ?thesis
    using assms updateOne_found [OF assms, of ?p] st
    by (auto simp: changeThreadResponseAnswerDetailStatus_def split: prod.splits)
qed

theorem changeThreadResponseAnswerDetailStatus_same_status_witness:
  "findOneBy example_repository 7 = Some example_response
   \<and> answerDetail_status example_response = Some STREAMING
   \<and> changeThreadResponseAnswerDetailStatus example_repository 7 STREAMING (Some ''text'')
       = Inr (example_repository, None)
   \<and> answerDetail_status example_response \<noteq> Some FINISHED
   \<and> (case changeThreadResponseAnswerDetailStatus example_repository 7 FINISHED (Some ''text'') of
         Inl e \<Rightarrow> False
       | Inr (repo', result) \<Rightarrow>
           writes repo' = [Updated 7 (PatchAnswerDetail
              \<lparr>ad_queryId = Some ''q1'', ad_status = Some FINISHED,
               ad_content = Some ''text'', ad_numRowsUsedInLLM = Some 5, ad_error = None\<rparr>)]
           \<and> map_option answerDetail_status result = Some (Some FINISHED))"
proof -
  have h: "findOneBy example_repository 7 = Some example_response"
    by (simp add: findOneBy_def example_repository_def example_response_def)
  have s1: "answerDetail_status example_response = Some STREAMING"
    by (simp add: answerDetail_status_def example_response_def)
  have s2: "answerDetail_status example_response \<noteq> Some FINISHED"
    by (simp add: answerDetail_status_def example_response_def)
  have w: "writes example_repository = []"
    by (simp add: example_repository_def)
  have sp: "spread_answerDetail (tr_answerDetail example_response) FINISHED (Some ''text'')
      = \<lparr>ad_queryId = Some ''q1'', ad_status = Some FINISHED,
               ad_content = Some ''text'', ad_numRowsUsedInLLM = Some 5, ad_error = None\<rparr>"
    by (simp add: spread_answerDetail_def example_response_def)
  have c1: "changeThreadResponseAnswerDetailStatus example_repository 7 STREAMING (Some ''text'')
       = Inr (example_repository, None)"
    using changeThreadResponseAnswerDetailStatus_same_status
            [OF h, of STREAMING "Some ''text''"] s1
    by blast
  have c2: "case changeThreadResponseAnswerDetailStatus example_repository 7 FINISHED (Some ''text'') of
         Inl e \<Rightarrow> False
       | Inr (repo', result) \<Rightarrow>
           writes repo' = [Updated 7 (PatchAnswerDetail
              \<lparr>ad_queryId = Some ''q1'', ad_status = Some FINISHED,
               ad_content = Some ''text'', ad_numRowsUsedInLLM = Some 5, ad_error = None\<rparr>)]
           \<and> map_option answerDetail_status result = Some (Some FINISHED)"
    using changeThreadResponseAnswerDetailStatus_same_status
            [OF h, of FINISHED "Some ''text''"] s2 w sp
    by (auto split: sum.splits)
  show ?thesis
    using h s1 s2 c1 c2 by blast
qed

section \<open>Properties of the deployment wait\<close>

lemma waitLoop_slept:
  "1 \<le> waitTime \<Longrightarrow> waitTime \<le> 8 \<Longrightarrow>
   \<exists>n. waitTime + n \<le> 8 \<and>
       snd (waitLoop replies waitTime deploySuccess slept)
         = slept @ map (\<lambda>k. k * 1000) [waitTime ..< waitTime + n]"
proof (induction replies waitTime deploySuccess slept rule: waitLoop.induct)
  case (1 replies waitTime deploySuccess slept)
  show ?case
  proof (cases "waitTime \<le> 7 \<and>
      getDeployStatus (replies waitTime) = Inr RubixSystemStatus_INDEXING")
    case True
    then have ne: "RubixSystemStatus_INDEXING \<noteq> RubixSystemStatus_FINISHED"
        "RubixSystemStatus_INDEXING \<noteq> RubixSystemStatus_FAILED"
      by (simp_all add: RubixSystemStatus_INDEXING_def RubixSystemStatus_FINISHED_def
          RubixSystemStatus_FAILED_def)
    from True have
      "\<exists>n. (waitTime + 1) + n \<le> 8 \<and>
         snd (waitLoop replies (waitTime + 1) deploySuccess (slept @ [waitTime * 1000]))
           = (slept @ [waitTime * 1000]) @ map (\<lambda>k. k * 1000) [waitTime + 1 ..< (waitTime + 1) + n]"
      using "1.IH" [of RubixSystemStatus_INDEXING] ne "1.prems" by simp
    then obtain n where n: "(waitTime + 1) + n \<le> 8"
      and eq: "snd (waitLoop replies (waitTime + 1) deploySuccess (slept @ [waitTime * 1000]))
           = (slept @ [waitTime * 1000]) @ map (\<lambda>k. k * 1000) [waitTime + 1 ..< (waitTime + 1) + n]"
      by blast
    have step: "waitLoop replies waitTime deploySuccess slept
        = waitLoop replies (waitTime + 1) deploySuccess (slept @ [waitTime * 1000])"
      using True ne by (subst waitLoop.simps) simp
    have "[waitTime ..< waitTime + Suc n] = waitTime # [waitTime + 1 ..< (waitTime + 1) + n]"
      by (simp add: upt_rec)
    then have "snd (waitLoop replies waitTime deploySuccess slept)
        = slept @ map (\<lambda>k. k * 1000) [waitTime ..< waitTime + Suc n]"
      using step eq by simp
    moreover have "waitTime + Suc n \<le> 8"
      using n by simp
    ultimately show ?thesis by blast
  next
    case False
    then have "snd (waitLoop replies waitTime deploySuccess slept) = slept"
      by (subst waitLoop.simps) (auto split: sum.splits)
    then have "waitTime + 0 \<le> 8 \<and> snd (waitLoop replies waitTime deploySuccess slept)
        = slept @ map (\<lambda>k. k * 1000) [waitTime ..< waitTime + 0]"
      using "1.prems" by simp
    then show ?thesis by blast
  qed
qed

lemma backoff_total: "n \<le> 7 \<Longrightarrow> sum_list (map (\<lambda>k. k * 1000) [1 ..< 1 + n]) \<le> (28000::nat)"
proof -
  assume n: "n \<le> 7"
  have full: "sum_list (map (\<lambda>k. k * 1000) [1 ..< 8]) = (28000::nat)"
    by (simp add: upt_rec)
  have "[1 ..< 8] = [1 ..< 1 + n] @ [1 + n ..< 8]"
    using upt_add_eq_append [of 1 "1 + n" "7 - n"] n by simp
  then have "sum_list (map (\<lambda>k. k * 1000) [1 ..< 8])
      = sum_list (map (\<lambda>k. k * 1000) [1 ..< 1 + n]) + sum_list (map (\<lambda>k. k * 1000) [1 + n ..< 8])"
    by simp
  then show ?thesis
    using full by linarith
qed

lemma waitLoop_all_indexing:
  "\<forall>k. waitTime \<le> k \<and> k \<le> 7 \<longrightarrow> getDeployStatus (replies k) = Inr RubixSystemStatus_INDEXING \<Longrightarrow>
   waitLoop replies waitTime deploySuccess slept
     = (Inr (Some deploySuccess), slept @ map (\<lambda>k. k * 1000) [waitTime ..< 8])"
proof (induction replies waitTime deploySuccess slept rule: waitLoop.induct)
  case (1 replies waitTime deploySuccess slept)
  have ne: "RubixSystemStatus_INDEXING \<noteq> RubixSystemStatus_FINISHED"
      "RubixSystemStatus_INDEXING \<noteq> RubixSystemStatus_FAILED"
    by (simp_all add: RubixSystemStatus_INDEXING_def RubixSystemStatus_FINISHED_def
        RubixSystemStatus_FAILED_def)
  show ?case
  proof (cases "waitTime \<le> 7")
    case True
    then have st: "getDeployStatus (replies waitTime) = Inr RubixSystemStatus_INDEXING"
      using "1.prems" by simp
    have "waitLoop replies (waitTime + 1) deploySuccess (slept @ [waitTime * 1000])
        = (Inr (Some deploySuccess),
           (slept @ [waitTime * 1000]) @ map (\<lambda>k. k * 1000) [waitTime + 1 ..< 8])"
      using "1.IH" [OF True st ne(1) ne(2)] "1.prems" by simp
    moreover have "[waitTime ..< 8] = waitTime # [waitTime + 1 ..< 8]"
      using True by (simp add: upt_rec)
    moreover have "waitLoop replies waitTime deploySuccess slept
        = waitLoop replies (waitTime + 1) deploySuccess (slept @ [waitTime * 1000])"
      using True st ne by (subst waitLoop.simps) simp
    ultimately show ?thesis by simp
  next
    case False
    then show ?thesis
      by (subst waitLoop.simps) simp
  qed
qed

lemma deploy_slept: "snd (deploy d post replies) =
   (case post of Rejected m \<Rightarrow> [] | Reply i \<Rightarrow> snd (waitDeployFinished replies))"
  by (auto simp: deploy_def deploy_try_def split: http_reply.splits prod.splits sum.splits)

lemma deploy_status_cases:
  "rdr_status (fst (deploy d post replies)) = FAILED \<and> rdr_error (fst (deploy d post replies)) \<noteq> None
   \<or> rdr_status (fst (deploy d post replies)) = SUCCESS \<and> rdr_error (fst (deploy d post replies)) = None"
  by (auto simp: deploy_def deploy_try_def split: http_reply.splits prod.splits sum.splits)

text \<open>
  C9. \<open>deploy\<close> waits in a loop of at most seven status requests, sleeping 1, 2, ... seconds
  after the requests that found the deployment still indexing: at most seven delays,
  the k-th of k seconds, 28 seconds in all at most. It always returns a response, \<open>FAILED\<close>
  with an error message or \<open>SUCCESS\<close>; every exception of the wait is caught and turned
  into a \<open>FAILED\<close> response. When all seven requests find the deployment indexing,
  \<open>waitDeployFinished\<close> returns \<^verbatim>\<open>false\<close> after the seven delays and \<open>deploy\<close> returns
  \<open>FAILED\<close> with the message of the timeout.
\<close>

theorem deploy_bounded_wait:
  "length (snd (deploy d post replies)) \<le> 7
   \<and> snd (deploy d post replies)
       = map (\<lambda>k. k * 1000) [1 ..< 1 + length (snd (deploy d post replies))]
   \<and> sum_list (snd (deploy d post replies)) \<le> 28000
   \<and> (rdr_status (fst (deploy d post replies)) = FAILED
        \<and> rdr_error (fst (deploy d post replies)) \<noteq> None
      \<or> rdr_status (fst (deploy d post replies)) = SUCCESS
        \<and> rdr_error (fst (deploy d post replies)) = None)
   \<and> ((\<forall>k. 1 \<le> k \<and> k \<le> 7 \<longrightarrow>
          getDeployStatus (replies k) = Inr RubixSystemStatus_INDEXING) \<longrightarrow>
        waitDeployFinished replies =
          (Inr (Some False), [1000, 2000, 3000, 4000, 5000, 6000, 7000])
        \<and> deploy d (Reply deployId) replies =
          (\<lparr>rdr_status = FAILED,
            rdr_error = Some (''Rubix: Deploy Rubix failed or timeout, hash: '' @ dd_hash d)\<rparr>,
           [1000, 2000, 3000, 4000, 5000, 6000, 7000]))"
proof -
  let ?s = "snd (deploy d post replies)"
  obtain n where n: "1 + n \<le> 8"
    and w: "snd (waitDeployFinished replies) = map (\<lambda>k. k * 1000) [1 ..< 1 + n]"
    using waitLoop_slept [of 1 replies False "[]"]
    by (auto simp: waitDeployFinished_def)
  have len_w: "length (snd (waitDeployFinished replies)) = n"
    using w by simp
  have shape: "?s = map (\<lambda>k. k * 1000) [1 ..< 1 + length ?s] \<and> length ?s \<le> 7"
  proof (cases post)
    case (Reply i)
    then have "?s = snd (waitDeployFinished replies)"
      by (simp add: deploy_slept)
    then show ?thesis
      using w len_w n by simp
  next
    case (Rejected m)
    then show ?thesis
      by (simp add: deploy_slept)
  qed
  have total: "sum_list ?s \<le> 28000"
  proof -
    have "sum_list (map (\<lambda>k. k * 1000) [1 ..< 1 + length ?s]) \<le> (28000::nat)"
      using shape by (intro backoff_total) simp
    then show ?thesis
      using shape by simp
  qed
  have never: "waitDeployFinished replies =
          (Inr (Some False), [1000, 2000, 3000, 4000, 5000, 6000, 7000])
        \<and> deploy d (Reply deployId) replies =
          (\<lparr>rdr_status = FAILED,
            rdr_error = Some (''Rubix: Deploy Rubix failed or timeout, hash: '' @ dd_hash d)\<rparr>,
           [1000, 2000, 3000, 4000, 5000, 6000, 7000])"
    if a: "\<forall>k. 1 \<le> k \<and> k \<le> 7 \<longrightarrow> getDeployStatus (replies k) = Inr RubixSystemStatus_INDEXING"
  proof -
    have u: "map (\<lambda>k. k * 1000) [1 ..< 8] = [1000, 2000, 3000, 4000, 5000, 6000, 7000::nat]"
      by (simp add: upt_rec)
    have "waitDeployFinished replies = (Inr (Some False), map (\<lambda>k. k * 1000) [1 ..< 8])"
      using waitLoop_all_indexing [of 1 replies False "[]"] a
      by (simp add: waitDeployFinished_def)
    then have wd: "waitDeployFinished replies =
          (Inr (Some False), [1000, 2000, 3000, 4000, 5000, 6000, 7000])"
      using u by simp
    then show ?thesis
      by (simp add: deploy_def deploy_try_def)
  qed
  have "length ?s \<le> 7"
    using shape by simp
  moreover have "?s = map (\<lambda>k. k * 1000) [1 ..< 1 + length ?s]"
    using shape by simp
  moreover note total deploy_status_cases [of d post replies]
  moreover have "(\<forall>k. 1 \<le> k \<and> k \<le> 7 \<longrightarrow>
          getDeployStatus (replies k) = Inr RubixSystemStatus_INDEXING) \<longrightarrow>
        waitDeployFinished replies =
          (Inr (Some False), [1000, 2000, 3000, 4000, 5000, 6000, 7000])
        \<and> deploy d (Reply deployId) replies =
          (\<lparr>rdr_status = FAILED,
            rdr_error = Some (''Rubix: Deploy Rubix failed or timeout, hash: '' @ dd_hash d)\<rparr>,
           [1000, 2000, 3000, 4000, 5000, 6000, 7000])"
    using never by (rule impI)
  ultimately show ?thesis
    by (intro conjI)
qed

theorem deploy_bounded_wait_witness:
  "getDeployStatus indexing_reply = Inr RubixSystemStatus_INDEXING
   \<and> deploy \<lparr>dd_manifest = ''{}'', dd_hash = ''abc''\<rparr> (Reply ''d1'') (\<lambda>k. indexing_reply) =
       (\<lparr>rdr_status = FAILED,
         rdr_error = Some ''Rubix: Deploy Rubix failed or timeout, hash: abc''\<rparr>,
        [1000, 2000, 3000, 4000, 5000, 6000, 7000])"
proof -
  have h: "getDeployStatus indexing_reply = Inr RubixSystemStatus_INDEXING"
    by (simp add: getDeployStatus_def indexing_reply_def RubixSystemStatus_INDEXING_def
        toUpperCase_def upper_char_def)
  then have a: "\<forall>k. 1 \<le> k \<and> k \<le> 7 \<longrightarrow>
      getDeployStatus ((\<lambda>k. indexing_reply) k) = Inr RubixSystemStatus_INDEXING"
    by simp
  have "deploy \<lparr>dd_manifest = ''{}'', dd_hash = ''abc''\<rparr> (Reply ''d1'') (\<lambda>k. indexing_reply) =
       (\<lparr>rdr_status = FAILED,
         rdr_error = Some (''Rubix: Deploy Rubix failed or timeout, hash: ''
            @ dd_hash \<lparr>dd_manifest = ''{}'', dd_hash = ''abc''\<rparr>)\<rparr>,
        [1000, 2000, 3000, 4000, 5000, 6000, 7000])"
    using deploy_bounded_wait [of "\<lparr>dd_manifest = ''{}'', dd_hash = ''abc''\<rparr>" "Reply ''d1''"
        "\<lambda>k. indexing_reply" "''d1''"] a
    by blast
  then show ?thesis
    using h by simp
qed

section \<open>Properties of the tracker\<close>

lemma set_tasks_set: "set (tasks_set ts k v) \<subseteq> insert (k, v) (set ts)"
  by (induction ts k v rule: tasks_set.induct) auto

lemma fst_set_tasks_set: "fst ` set (tasks_set ts k v) = insert k (fst ` set ts)"
  by (induction ts k v rule: tasks_set.induct) auto

lemma fst_set_tasks_delete: "fst ` set (tasks_delete ts k) = fst ` set ts - {k}"
  by (auto simp: tasks_delete_def)

lemma set_remove_nth: "set (remove_nth n xs) \<subseteq> set xs"
  by (auto simp: remove_nth_def dest: in_set_takeD in_set_dropD)

lemma remove_nth_distinct:
  assumes "n < length xs" "distinct (map f xs)"
  shows "distinct (map f (remove_nth n xs))" "f (xs ! n) \<notin> f ` set (remove_nth n xs)"
proof -
  have "xs = take n xs @ xs ! n # drop (Suc n) xs"
    using assms(1) by (simp add: id_take_nth_drop)
  then have "distinct (map f (take n xs @ xs ! n # drop (Suc n) xs))"
    using assms(2) by simp
  then show "distinct (map f (remove_nth n xs))" "f (xs ! n) \<notin> f ` set (remove_nth n xs)"
    by (auto simp: remove_nth_def)
qed

lemma filter_remove_nth_other:
  "n < length xs \<Longrightarrow> f (xs ! n) \<noteq> e \<Longrightarrow>
   filter (\<lambda>j. f j = e) (remove_nth n xs) = filter (\<lambda>j. f j = e) xs"
proof -
  assume a: "n < length xs" "f (xs ! n) \<noteq> e"
  have "filter (\<lambda>j. f j = e) xs
      = filter (\<lambda>j. f j = e) (take n xs @ xs ! n # drop (Suc n) xs)"
    using a(1) by (simp add: id_take_nth_drop [symmetric])
  then show ?thesis
    using a(2) by (simp add: remove_nth_def)
qed

lemma map_list_update_same: "n < length xs \<Longrightarrow> f y = f (xs ! n) \<Longrightarrow> map f (xs[n := y]) = map f xs"
  by (simp add: map_update list_update_same_conv)

subsection \<open>The jobs of a tick\<close>

lemma start_job_frame:
  "tasks (start_job r t) = tasks t" "store (start_job r t) = store t"
  "telemetry_events (start_job r t) = telemetry_events t"
  by (simp_all add: start_job_def Let_def split: option.splits)

lemma fold_start_job_frame:
  "tasks (fold start_job rs t) = tasks t \<and> store (fold start_job rs t) = store t"
  by (induction rs arbitrary: t) (simp_all add: start_job_frame)

lemma start_job_skip:
  "e \<in> runningJobs t \<Longrightarrow>
   e \<in> runningJobs (start_job r t) \<and> in_flight (start_job r t) e = in_flight t e
   \<and> polls_sent (start_job r t) e = polls_sent t e"
  by (auto simp: start_job_def Let_def in_flight_def polls_sent_def split: option.splits)

lemma fold_start_job_skip:
  "e \<in> runningJobs t \<Longrightarrow>
   e \<in> runningJobs (fold start_job rs t) \<and> in_flight (fold start_job rs t) e = in_flight t e
   \<and> polls_sent (fold start_job rs t) e = polls_sent t e"
proof (induction rs arbitrary: t)
  case Nil
  then show ?case by simp
next
  case (Cons r rs)
  from start_job_skip [OF Cons.prems, of r]
  have s: "e \<in> runningJobs (start_job r t)" "in_flight (start_job r t) e = in_flight t e"
    "polls_sent (start_job r t) e = polls_sent t e"
    by simp_all
  from Cons.IH [OF s(1)] s show ?case by simp
qed

lemma start_job_inv:
  assumes "guard_inv t" "r \<in> set (Object_values (tasks t))"
  shows "guard_inv (start_job r t)"
proof (cases "tr_id r \<in> runningJobs t")
  case True
  then show ?thesis
    using assms(1) by (simp add: start_job_def)
next
  case False
  have inv: "distinct (map job_id (pending t))" "job_id ` set (pending t) \<subseteq> runningJobs t"
    "list_all job_ok (pending t)" "list_all unfinished (Object_values (tasks t))"
    "list_all (\<lambda>kv. fst kv = tr_id (snd kv)) (tasks t)"
    "job_id ` set (pending t) \<subseteq> fst ` set (tasks t)"
    using assms(1) by (simp_all add: guard_inv_def)
  have unf: "unfinished r"
    using inv(4) assms(2) by (simp add: list_all_iff)
  then obtain bd where bd: "tr_breakdownDetail r = Some bd"
    by (auto simp: unfinished_def split: option.splits)
  have key: "tr_id r \<in> fst ` set (tasks t)"
    using inv(5) assms(2) by (force simp: list_all_iff Object_values_def)
  have fresh: "tr_id r \<notin> job_id ` set (pending t)"
    using inv(2) False by blast
  have st: "start_job r t =
      t\<lparr>runningJobs := insert (tr_id r) (runningJobs t),
        pending := pending t @ [AwaitFetch r bd],
        fetch_calls := fetch_calls t @ [(tr_id r, bd_queryId bd)]\<rparr>"
    using False bd by (simp add: start_job_def Let_def)
  have ok: "job_ok (AwaitFetch r bd)"
    using bd unf by (simp add: job_ok_def)
  have sub: "job_id ` set (pending t) \<subseteq> insert (tr_id r) (runningJobs t)"
    using inv(2) by blast
  show ?thesis
    unfolding st guard_inv_def
    using inv fresh ok key sub by simp
qed

lemma fold_start_job_inv:
  "guard_inv t \<Longrightarrow> set rs \<subseteq> set (Object_values (tasks t)) \<Longrightarrow>
   guard_inv (fold start_job rs t)"
proof (induction rs arbitrary: t)
  case Nil
  then show ?case by simp
next
  case (Cons r rs)
  then have "guard_inv (start_job r t)"
    using start_job_inv [of t r] by simp
  moreover have "set rs \<subseteq> set (Object_values (tasks (start_job r t)))"
    using Cons.prems(2) by (simp add: start_job_frame)
  ultimately show ?case
    using Cons.IH by simp
qed

lemma tick_inv: "guard_inv t \<Longrightarrow> guard_inv (tick t)"
  using fold_start_job_inv [of t "Object_values (tasks t)"]
  by (simp add: tick_def)

lemma addTask_inv: "guard_inv t \<Longrightarrow> unfinished r \<Longrightarrow> guard_inv (addTask r t)"
proof -
  assume a: "guard_inv t" "unfinished r"
  have sub: "set (tasks_set (tasks t) (tr_id r) r) \<subseteq> insert (tr_id r, r) (set (tasks t))"
    by (rule set_tasks_set)
  then have "set (Object_values (tasks_set (tasks t) (tr_id r) r))
      \<subseteq> insert r (set (Object_values (tasks t)))"
    by (auto simp: Object_values_def)
  then have v: "list_all unfinished (Object_values (tasks_set (tasks t) (tr_id r) r))"
    using a by (auto simp: guard_inv_def list_all_iff)
  have k: "list_all (\<lambda>kv. fst kv = tr_id (snd kv)) (tasks_set (tasks t) (tr_id r) r)"
    using a sub by (auto simp: guard_inv_def list_all_iff)
  have f: "job_id ` set (pending t) \<subseteq> fst ` set (tasks_set (tasks t) (tr_id r) r)"
    using a by (auto simp: guard_inv_def fst_set_tasks_set)
  show ?thesis
    using a v k f by (simp add: guard_inv_def addTask_def)
qed

lemma fold_addTask_inv:
  "guard_inv t \<Longrightarrow> list_all unfinished rs \<Longrightarrow> guard_inv (fold addTask rs t)"
  by (induction rs arbitrary: t) (simp_all add: addTask_inv)

lemma initialize_inv: "guard_inv t \<Longrightarrow> guard_inv (initialize t)"
  using fold_addTask_inv [of t "filter unfinished (findAll (store t))"]
  by (simp add: initialize_def list_all_iff)

lemma understanding_not_final: "\<not> isFinalized UNDERSTANDING" "UNDERSTANDING \<noteq> []"
  by (simp_all add: isFinalized_def UNDERSTANDING_def AskResultStatus_FAILED_def
      AskResultStatus_FINISHED_def AskResultStatus_STOPPED_def)

lemma store_update_inv: "guard_inv t \<Longrightarrow> guard_inv (t\<lparr>store := s\<rparr>)"
  by (simp add: guard_inv_def)

lemma generate_inv: "guard_inv t \<Longrightarrow> guard_inv (generateThreadResponseBreakdown i reply t)"
proof -
  assume a: "guard_inv t"
  show ?thesis
  proof (cases "findOneBy (store t) i")
    case None
    then show ?thesis
      using a by (simp add: generateThreadResponseBreakdown_def)
  next
    case (Some r)
    show ?thesis
    proof (cases reply)
      case (Rejected m)
      then show ?thesis
        using a Some by (simp add: generateThreadResponseBreakdown_def)
    next
      case (Reply q)
      let ?p = "PatchBreakdownDetail \<lparr>bd_queryId = q, bd_status = Some UNDERSTANDING,
                           bd_error = None, bd_description = None, bd_steps = None\<rparr>"
      have idr: "tr_id r = i"
        using Some findOneBy_id by blast
      have u: "snd (updateOne (store t) i ?p) = Some (apply_patch ?p r)"
        using updateOne_found(1) [OF Some] by simp
      have unf: "unfinished (apply_patch ?p r)"
        using understanding_not_final by (simp add: unfinished_def)
      have "generateThreadResponseBreakdown i reply t
          = addTask (apply_patch ?p r) (t\<lparr>store := fst (updateOne (store t) i ?p)\<rparr>)"
        using Some Reply idr
        by (simp add: generateThreadResponseBreakdown_def updateOne_def)
      then show ?thesis
        using addTask_inv [OF store_update_inv [OF a] unf] by simp
    qed
  qed
qed

lemma remove_nth_inv:
  assumes "guard_inv t" "n < length (pending t)"
  shows "distinct (map job_id (remove_nth n (pending t)))"
    and "list_all job_ok (remove_nth n (pending t))"
    and "job_id ` set (remove_nth n (pending t)) \<subseteq> runningJobs t - {job_id (pending t ! n)}"
    and "job_id ` set (remove_nth n (pending t)) \<subseteq> fst ` set (tasks t) - {job_id (pending t ! n)}"
    and "job_id ` set (remove_nth n (pending t)) \<subseteq> runningJobs t"
    and "job_id ` set (remove_nth n (pending t)) \<subseteq> fst ` set (tasks t)"
proof -
  have inv: "distinct (map job_id (pending t))" "job_id ` set (pending t) \<subseteq> runningJobs t"
    "list_all job_ok (pending t)" "job_id ` set (pending t) \<subseteq> fst ` set (tasks t)"
    using assms(1) by (simp_all add: guard_inv_def)
  have sub: "set (remove_nth n (pending t)) \<subseteq> set (pending t)"
    by (rule set_remove_nth)
  then have img: "job_id ` set (remove_nth n (pending t)) \<subseteq> job_id ` set (pending t)"
    by blast
  have notin: "job_id (pending t ! n) \<notin> job_id ` set (remove_nth n (pending t))"
    using remove_nth_distinct(2) [OF assms(2) inv(1)] .
  show "distinct (map job_id (remove_nth n (pending t)))"
    using remove_nth_distinct(1) [OF assms(2) inv(1)] .
  show "list_all job_ok (remove_nth n (pending t))"
    using inv(3) sub by (auto simp: list_all_iff)
  show "job_id ` set (remove_nth n (pending t)) \<subseteq> runningJobs t - {job_id (pending t ! n)}"
    using img inv(2) notin by blast
  show "job_id ` set (remove_nth n (pending t)) \<subseteq> fst ` set (tasks t) - {job_id (pending t ! n)}"
    using img inv(4) notin by blast
  show "job_id ` set (remove_nth n (pending t)) \<subseteq> runningJobs t"
    using img inv(2) by blast
  show "job_id ` set (remove_nth n (pending t)) \<subseteq> fst ` set (tasks t)"
    using img inv(4) by blast
qed

lemma fetch_settled_inv: "guard_inv t \<Longrightarrow> guard_inv (fetch_settled n reply t)"
proof -
  assume a: "guard_inv t"
  show ?thesis
  proof (cases "n < length (pending t)")
    case False
    then show ?thesis
      using a by (simp add: fetch_settled_def)
  next
    case True
    note rem = remove_nth_inv [OF a True]
    show ?thesis
    proof (cases "pending t ! n")
      case (AwaitUpdate r det res)
      then show ?thesis
        using a True by (simp add: fetch_settled_def)
    next
      case (AwaitFetch r bd)
      then have jid: "job_id (pending t ! n) = tr_id r"
        by simp
      have upd: "\<And>det res. map job_id ((pending t)[n := AwaitUpdate r det res]) = map job_id (pending t)"
        using True jid by (simp add: map_list_update_same)
      have upd_ok: "\<And>det res. list_all job_ok ((pending t)[n := AwaitUpdate r det res])"
        using a by (auto simp: guard_inv_def list_all_iff job_ok_def dest!: set_update_subset_insert [THEN subsetD])
      have upd_set: "\<And>det res. job_id ` set ((pending t)[n := AwaitUpdate r det res]) \<subseteq> runningJobs t"
        "\<And>det res. job_id ` set ((pending t)[n := AwaitUpdate r det res]) \<subseteq> fst ` set (tasks t)"
        using a upd by (metis guard_inv_def set_map)+
      show ?thesis
      proof (cases "getAskDetailResult reply")
        case (Inl e)
        then show ?thesis
          using a True AwaitFetch rem
          by (simp add: fetch_settled_def guard_inv_def)
      next
        case (Inr res)
        then show ?thesis
          using a True AwaitFetch rem [unfolded jid] upd upd_ok upd_set
          by (simp add: fetch_settled_def guard_inv_def)
      qed
    qed
  qed
qed

lemma list_all_tasks_delete:
  "list_all P (Object_values ts) \<Longrightarrow> list_all P (Object_values (tasks_delete ts k))"
  by (auto simp: Object_values_def tasks_delete_def list_all_iff)

lemma update_resolved_inv: "guard_inv t \<Longrightarrow> guard_inv (update_resolved n t)"
proof -
  assume a: "guard_inv t"
  show ?thesis
  proof (cases "n < length (pending t)")
    case False
    then show ?thesis
      using a by (simp add: update_resolved_def)
  next
    case True
    note rem = remove_nth_inv [OF a True]
    show ?thesis
    proof (cases "pending t ! n")
      case (AwaitFetch r bd)
      then show ?thesis
        using a True by (simp add: update_resolved_def)
    next
      case (AwaitUpdate r det res)
      then have jid: "job_id (pending t ! n) = tr_id r"
        by simp
      have del: "list_all unfinished (Object_values (tasks_delete (tasks t) (tr_id r)))"
        "list_all (\<lambda>kv. fst kv = tr_id (snd kv)) (tasks_delete (tasks t) (tr_id r))"
        using a list_all_tasks_delete [of unfinished "tasks t" "tr_id r"]
        by (auto simp: guard_inv_def tasks_delete_def list_all_iff)
      show ?thesis
        using a True AwaitUpdate rem [unfolded jid] del
        by (simp add: update_resolved_def guard_inv_def Let_def fst_set_tasks_delete)
    qed
  qed
qed

lemma update_rejected_inv: "guard_inv t \<Longrightarrow> guard_inv (update_rejected n m t)"
proof -
  assume a: "guard_inv t"
  show ?thesis
  proof (cases "n < length (pending t)")
    case False
    then show ?thesis
      using a by (simp add: update_rejected_def)
  next
    case True
    note rem = remove_nth_inv [OF a True]
    show ?thesis
    proof (cases "pending t ! n")
      case (AwaitFetch r bd)
      then show ?thesis
        using a True by (simp add: update_rejected_def)
    next
      case (AwaitUpdate r det res)
      show ?thesis
        using a True AwaitUpdate rem
        by (simp add: update_rejected_def guard_inv_def)
    qed
  qed
qed

lemma step_inv: "guard_inv t \<Longrightarrow> guard_inv (tracker_step ev t)"
  by (cases ev)
    (simp_all add: tick_inv initialize_inv generate_inv fetch_settled_inv update_resolved_inv
      update_rejected_inv)

lemma init_inv: "guard_inv (init repo)"
  by (simp add: guard_inv_def init_def Object_values_def)

lemma fold_step_inv: "guard_inv t \<Longrightarrow> guard_inv (fold tracker_step evs t)"
  by (induction evs arbitrary: t) (simp_all add: step_inv)

lemma run_inv: "guard_inv (run evs (init repo))"
  by (simp add: run_def fold_step_inv init_inv)

lemma filter_distinct_le1: "distinct (map f xs) \<Longrightarrow> length (filter (\<lambda>x. f x = e) xs) \<le> 1"
proof (induction xs)
  case Nil
  then show ?case by simp
next
  case (Cons x xs)
  show ?case
  proof (cases "f x = e")
    case True
    have "f x \<notin> f ` set xs"
      using Cons.prems by simp
    then have "\<forall>y \<in> set xs. f y \<noteq> e"
      using True by blast
    then have "filter (\<lambda>x. f x = e) xs = []"
      by (simp add: filter_empty_conv)
    then show ?thesis
      using True by simp
  next
    case False
    then show ?thesis
      using Cons by simp
  qed
qed

lemma start_job_runningJobs: "runningJobs t \<subseteq> runningJobs (start_job r t)"
  by (auto simp: start_job_def Let_def split: option.splits)

lemma fold_start_job_runningJobs: "runningJobs t \<subseteq> runningJobs (fold start_job rs t)"
proof (induction rs arbitrary: t)
  case Nil
  then show ?case by simp
next
  case (Cons r rs)
  have "runningJobs t \<subseteq> runningJobs (start_job r t)"
    by (rule start_job_runningJobs)
  also have "\<dots> \<subseteq> runningJobs (fold start_job rs (start_job r t))"
    by (rule Cons.IH)
  finally show ?case by simp
qed

lemma fold_addTask_frame:
  "runningJobs (fold addTask rs t) = runningJobs t \<and> pending (fold addTask rs t) = pending t
   \<and> store (fold addTask rs t) = store t
   \<and> fst ` set (tasks t) \<subseteq> fst ` set (tasks (fold addTask rs t))"
proof (induction rs arbitrary: t)
  case Nil
  then show ?case by simp
next
  case (Cons r rs)
  have "fst ` set (tasks t) \<subseteq> fst ` set (tasks (addTask r t))"
    by (auto simp: addTask_def fst_set_tasks_set)
  moreover have "runningJobs (addTask r t) = runningJobs t" "pending (addTask r t) = pending t"
    "store (addTask r t) = store t"
    by (simp_all add: addTask_def)
  moreover have "fst ` set (tasks (addTask r t))
      \<subseteq> fst ` set (tasks (fold addTask rs (addTask r t)))"
    using Cons.IH [of "addTask r t"] by simp
  moreover have "runningJobs (fold addTask rs (addTask r t)) = runningJobs (addTask r t)"
    "pending (fold addTask rs (addTask r t)) = pending (addTask r t)"
    "store (fold addTask rs (addTask r t)) = store (addTask r t)"
    using Cons.IH [of "addTask r t"] by simp_all
  ultimately have "runningJobs (fold addTask rs (addTask r t)) = runningJobs t"
    "pending (fold addTask rs (addTask r t)) = pending t"
    "store (fold addTask rs (addTask r t)) = store t"
    "fst ` set (tasks t) \<subseteq> fst ` set (tasks (fold addTask rs (addTask r t)))"
    by (simp, simp, simp, blast)
  then show ?case
    by simp
qed

lemma generate_frame:
  "runningJobs (generateThreadResponseBreakdown i reply t) = runningJobs t"
  "pending (generateThreadResponseBreakdown i reply t) = pending t"
  "fst ` set (tasks t) \<subseteq> fst ` set (tasks (generateThreadResponseBreakdown i reply t))"
  by (auto simp: generateThreadResponseBreakdown_def addTask_def fst_set_tasks_set
      split: option.splits http_reply.splits prod.splits)

lemma mark_cleared_on_completion:
  "e \<in> runningJobs t \<Longrightarrow> e \<notin> runningJobs (tracker_step ev t) \<Longrightarrow> completes_poll ev t e"
proof (cases ev)
  case Tick
  assume "e \<in> runningJobs t" "e \<notin> runningJobs (tracker_step ev t)"
  then show ?thesis
    using Tick fold_start_job_runningJobs [of t "Object_values (tasks t)"]
    by (auto simp: tick_def)
next
  case Initialize
  assume "e \<in> runningJobs t" "e \<notin> runningJobs (tracker_step ev t)"
  then show ?thesis
    using Initialize fold_addTask_frame [of "filter unfinished (findAll (store t))" t]
    by (simp add: initialize_def)
next
  case (GenerateThreadResponseBreakdown i reply)
  assume "e \<in> runningJobs t" "e \<notin> runningJobs (tracker_step ev t)"
  then show ?thesis
    using GenerateThreadResponseBreakdown by (simp add: generate_frame)
next
  case (FetchSettled n reply)
  assume "e \<in> runningJobs t" "e \<notin> runningJobs (tracker_step ev t)"
  then show ?thesis
    using FetchSettled
    by (auto simp: fetch_settled_def completes_poll_def
        split: if_splits job.splits sum.splits)
next
  case (UpdateResolved n)
  assume "e \<in> runningJobs t" "e \<notin> runningJobs (tracker_step ev t)"
  then show ?thesis
    using UpdateResolved
    by (auto simp: update_resolved_def completes_poll_def Let_def
        split: if_splits job.splits)
next
  case (UpdateRejected n m)
  assume "e \<in> runningJobs t" "e \<notin> runningJobs (tracker_step ev t)"
  then show ?thesis
    using UpdateRejected
    by (auto simp: update_rejected_def split: if_splits job.splits)
qed

text \<open>
  C1. In every state the tracker reaches, an entity has at most one poll in flight, and
  every poll in flight is one of an entity marked as running (the mark is set before the
  request is sent). When the timer fires while a poll of the entity is in flight, the
  entity is skipped: no request is sent for it and its poll in flight is the same. The
  mark of an entity is cleared only by the event that completes its poll.
\<close>

theorem one_poll_in_flight:
  assumes "t = run evs (init repo)"
  shows "length (in_flight t e) \<le> 1
         \<and> job_id ` set (pending t) \<subseteq> runningJobs t
         \<and> (in_flight t e \<noteq> [] \<longrightarrow>
              in_flight (tracker_step Tick t) e = in_flight t e
              \<and> polls_sent (tracker_step Tick t) e = polls_sent t e
              \<and> e \<in> runningJobs (tracker_step Tick t))
         \<and> (e \<in> runningJobs t \<and> e \<notin> runningJobs (tracker_step ev t) \<longrightarrow> completes_poll ev t e)"
proof -
  have inv: "guard_inv t"
    using assms run_inv by simp
  then have d: "distinct (map job_id (pending t))" and m: "job_id ` set (pending t) \<subseteq> runningJobs t"
    by (simp_all add: guard_inv_def)
  have one: "length (in_flight t e) \<le> 1"
    using filter_distinct_le1 [OF d] by (simp add: in_flight_def)
  have skip: "in_flight (tracker_step Tick t) e = in_flight t e
              \<and> polls_sent (tracker_step Tick t) e = polls_sent t e
              \<and> e \<in> runningJobs (tracker_step Tick t)" if "in_flight t e \<noteq> []"
  proof -
    from that obtain j where "j \<in> set (pending t)" "job_id j = e"
      by (auto simp: in_flight_def filter_empty_conv)
    then have "e \<in> runningJobs t"
      using m by blast
    then show ?thesis
      using fold_start_job_skip [of e t "Object_values (tasks t)"] by (simp add: tick_def)
  qed
  show ?thesis
    using one m skip mark_cleared_on_completion [of e t ev] by blast
qed

lemma tracked_step:
  "tracked t e \<Longrightarrow> \<not> tracked (tracker_step ev t) e \<Longrightarrow> completes_final_poll ev t e"
proof (cases ev)
  case Tick
  assume "tracked t e" "\<not> tracked (tracker_step ev t) e"
  then show ?thesis
    using Tick fold_start_job_frame [of "Object_values (tasks t)" t]
    by (simp add: tick_def tracked_def)
next
  case Initialize
  assume "tracked t e" "\<not> tracked (tracker_step ev t) e"
  then show ?thesis
    using Initialize fold_addTask_frame [of "filter unfinished (findAll (store t))" t]
    by (auto simp: initialize_def tracked_def)
next
  case (GenerateThreadResponseBreakdown i reply)
  assume "tracked t e" "\<not> tracked (tracker_step ev t) e"
  then show ?thesis
    using GenerateThreadResponseBreakdown generate_frame(3) [of t i reply]
    by (auto simp: tracked_def)
next
  case (FetchSettled n reply)
  assume "tracked t e" "\<not> tracked (tracker_step ev t) e"
  then show ?thesis
    using FetchSettled
    by (auto simp: fetch_settled_def tracked_def split: if_splits job.splits sum.splits)
next
  case (UpdateResolved n)
  assume "tracked t e" "\<not> tracked (tracker_step ev t) e"
  then show ?thesis
    using UpdateResolved
    by (auto simp: update_resolved_def completes_final_poll_def tracked_def Let_def
        fst_set_tasks_delete split: if_splits job.splits)
next
  case (UpdateRejected n m)
  assume "tracked t e" "\<not> tracked (tracker_step ev t) e"
  then show ?thesis
    using UpdateRejected
    by (auto simp: update_rejected_def tracked_def split: if_splits job.splits)
qed

lemma final_poll_removes: "completes_final_poll ev t e \<Longrightarrow> \<not> tracked (tracker_step ev t) e"
  by (cases ev)
    (auto simp: completes_final_poll_def update_resolved_def tracked_def Let_def
      fst_set_tasks_delete split: job.splits)

lemma unfinished_status:
  "unfinished r \<Longrightarrow> tr_breakdownDetail r = Some bd \<Longrightarrow> isFinalized s \<Longrightarrow> bd_status bd \<noteq> Some s"
  by (auto simp: unfinished_def split: option.splits)

lemma pending_job_ok:
  "guard_inv t \<Longrightarrow> n < length (pending t) \<Longrightarrow> pending t ! n = AwaitFetch r bd \<Longrightarrow>
   tr_breakdownDetail r = Some bd \<and> unfinished r \<and> tr_id r \<in> runningJobs t \<and> tracked t (tr_id r)"
proof -
  assume a: "guard_inv t" "n < length (pending t)" "pending t ! n = AwaitFetch r bd"
  then have mem: "AwaitFetch r bd \<in> set (pending t)"
    by (metis nth_mem)
  then have "job_ok (AwaitFetch r bd)"
    using a(1) by (simp add: guard_inv_def list_all_iff)
  moreover have sub: "job_id ` set (pending t) \<subseteq> runningJobs t"
    "job_id ` set (pending t) \<subseteq> fst ` set (tasks t)"
    using a(1) by (simp_all add: guard_inv_def)
  moreover have "job_id (AwaitFetch r bd) \<in> job_id ` set (pending t)"
    using mem by (rule imageI)
  ultimately have "job_ok (AwaitFetch r bd)" "job_id (AwaitFetch r bd) \<in> runningJobs t"
    "job_id (AwaitFetch r bd) \<in> fst ` set (tasks t)"
    by blast+
  then show ?thesis
    by (simp add: job_ok_def tracked_def)
qed

text \<open>
  C2 (as amended). In every state the tracker reaches: an event removes an entity from
  the tasks if and only if it completes the write of a poll of the entity whose fetched
  status is final (\<open>FINISHED\<close>, \<open>FAILED\<close> or \<open>STOPPED\<close>), so a poll that fetched another
  status never removes it; and a poll whose request yields a final status goes on to the
  write of the detail, and when \<^verbatim>\<open>updateOne\<close> has returned the entity is not in the tasks.
\<close>

theorem removed_iff_final_status:
  assumes "t = run evs (init repo)"
  shows "(tracked t e \<and> \<not> tracked (tracker_step ev t) e \<longrightarrow> completes_final_poll ev t e)
         \<and> (completes_final_poll ev t e \<longrightarrow> \<not> tracked (tracker_step ev t) e)
         \<and> (n < length (pending t) \<and> pending t ! n = AwaitFetch r bd
              \<and> getAskDetailResult reply = Inr res \<and> isFinalized (adr_status res) \<longrightarrow>
              tracked t (tr_id r)
              \<and> pending (tracker_step (FetchSettled n reply) t) ! n
                  = AwaitUpdate r (updatedBreakdownDetail bd res) res
              \<and> completes_final_poll (UpdateResolved n) (tracker_step (FetchSettled n reply) t) (tr_id r)
              \<and> \<not> tracked (tracker_step (UpdateResolved n) (tracker_step (FetchSettled n reply) t)) (tr_id r))"
proof -
  have inv: "guard_inv t"
    using assms run_inv by simp
  have path: "tracked t (tr_id r)
              \<and> pending (tracker_step (FetchSettled n reply) t) ! n
                  = AwaitUpdate r (updatedBreakdownDetail bd res) res
              \<and> completes_final_poll (UpdateResolved n) (tracker_step (FetchSettled n reply) t) (tr_id r)
              \<and> \<not> tracked (tracker_step (UpdateResolved n) (tracker_step (FetchSettled n reply) t)) (tr_id r)"
    if a: "n < length (pending t)" "pending t ! n = AwaitFetch r bd"
      "getAskDetailResult reply = Inr res" "isFinalized (adr_status res)"
  proof -
    from pending_job_ok [OF inv a(1) a(2)]
    have ok: "tr_breakdownDetail r = Some bd" "unfinished r" "tracked t (tr_id r)"
      by simp_all
    have ne: "bd_status bd \<noteq> Some (adr_status res)"
      using unfinished_status [OF ok(2) ok(1) a(4)] .
    have f: "tracker_step (FetchSettled n reply) t
        = t\<lparr>pending := (pending t)[n := AwaitUpdate r (updatedBreakdownDetail bd res) res]\<rparr>"
      using a ne by (simp add: fetch_settled_def)
    then have p: "pending (tracker_step (FetchSettled n reply) t) ! n
        = AwaitUpdate r (updatedBreakdownDetail bd res) res"
      "n < length (pending (tracker_step (FetchSettled n reply) t))"
      using a(1) by simp_all
    then have c: "completes_final_poll (UpdateResolved n) (tracker_step (FetchSettled n reply) t) (tr_id r)"
      using a(4) by (simp add: completes_final_poll_def)
    show ?thesis
      using ok(3) p(1) c final_poll_removes [OF c] by simp
  qed
  show ?thesis
    using tracked_step [of t e ev] final_poll_removes [of ev t e] path by blast
qed

text \<open>
  The branch of a job for an unchanged status. In every state the tracker reaches, when
  the request of a poll yields a status equal to the status of the breakdown detail that
  the job holds, the poll ends there: the repository is as before, no job of the entity
  is suspended, the mark of the entity is released, and the tasks are the same, the
  entity among them.
\<close>

theorem unchanged_status_no_write:
  assumes "t = run evs (init repo)"
    and "n < length (pending t)"
    and "pending t ! n = AwaitFetch r bd"
    and "getAskDetailResult reply = Inr res"
    and "bd_status bd = Some (adr_status res)"
  shows "tr_breakdownDetail r = Some bd
         \<and> store (tracker_step (FetchSettled n reply) t) = store t
         \<and> in_flight (tracker_step (FetchSettled n reply) t) (tr_id r) = []
         \<and> tr_id r \<notin> runningJobs (tracker_step (FetchSettled n reply) t)
         \<and> tasks (tracker_step (FetchSettled n reply) t) = tasks t
         \<and> tracked (tracker_step (FetchSettled n reply) t) (tr_id r)"
proof -
  have inv: "guard_inv t"
    using assms(1) run_inv by simp
  from pending_job_ok [OF inv assms(2) assms(3)]
  have ok: "tr_breakdownDetail r = Some bd" "tracked t (tr_id r)"
    by simp_all
  have f: "tracker_step (FetchSettled n reply) t
      = t\<lparr>runningJobs := runningJobs t - {tr_id r}, pending := remove_nth n (pending t)\<rparr>"
    using assms by (simp add: fetch_settled_def)
  have "job_id ` set (remove_nth n (pending t)) \<subseteq> runningJobs t - {job_id (pending t ! n)}"
    using remove_nth_inv(3) [OF inv assms(2)] .
  then have "\<forall>j \<in> set (remove_nth n (pending t)). job_id j \<noteq> tr_id r"
    using assms(3) by auto
  then have none: "in_flight (tracker_step (FetchSettled n reply) t) (tr_id r) = []"
    using f by (simp add: in_flight_def filter_empty_conv)
  show ?thesis
    using ok none f by (simp add: tracked_def)
qed

text \<open>
  C3 (as amended). The status of a result body is upper-cased. A body whose status is
  absent or empty makes \<open>transformStatusAndError\<close> throw; any other status is returned
  upper-cased as the status of the result, whether or not it is a member of the
  enumeration. In the tracker, a poll whose result body has an absent or empty status is
  rejected with that error, which is collected for the error log: nothing is written,
  the tasks are the same (the entity stays tracked), and the other suspended jobs are as
  they were. A body with any other status does not reject the poll.
\<close>

theorem unknown_status_poll:
  "(case body_status body of
      None \<Rightarrow> transformStatusAndError body = Inl (UnknownAskStatus None)
    | Some s \<Rightarrow>
        if s = [] then transformStatusAndError body = Inl (UnknownAskStatus (Some []))
        else (case transformStatusAndError body of
                Inl err \<Rightarrow> False
              | Inr se \<Rightarrow> sae_status se = toUpperCase s))
   \<and> (n < length (pending t) \<and> pending t ! n = AwaitFetch r bd \<longrightarrow>
        (if body_status b = None \<or> body_status b = Some []
         then tracker_step (FetchSettled n (Reply b)) t
                = t\<lparr>pending := remove_nth n (pending t),
                    settled_rejected := settled_rejected t @
                      [(tr_id r, FetchFailed (UnknownAskStatus (body_status b)))]\<rparr>
              \<and> tasks (tracker_step (FetchSettled n (Reply b)) t) = tasks t
              \<and> store (tracker_step (FetchSettled n (Reply b)) t) = store t
         else settled_rejected (tracker_step (FetchSettled n (Reply b)) t) = settled_rejected t))"
proof -
  have up: "\<And>s. toUpperCase s = [] \<longleftrightarrow> s = []"
    by (simp add: toUpperCase_def)
  have a: "case body_status body of
      None \<Rightarrow> transformStatusAndError body = Inl (UnknownAskStatus None)
    | Some s \<Rightarrow>
        if s = [] then transformStatusAndError body = Inl (UnknownAskStatus (Some []))
        else (case transformStatusAndError body of
                Inl err \<Rightarrow> False
              | Inr se \<Rightarrow> sae_status se = toUpperCase s)"
    by (simp add: transformStatusAndError_def up Let_def split: option.splits)
  have g: "getAskDetailResult (Reply b) =
      (case body_status b of
         None \<Rightarrow> Inl (UnknownAskStatus None)
       | Some s \<Rightarrow> if s = [] then Inl (UnknownAskStatus (Some []))
           else getAskDetailResult (Reply b))"
    by (simp add: getAskDetailResult_def transformAskDetailResult_def
        transformStatusAndError_def up Let_def split: option.splits)
  have ok: "\<exists>res. getAskDetailResult (Reply b) = Inr res"
    if "body_status b \<noteq> None" "body_status b \<noteq> Some []"
    using that
    by (auto simp: getAskDetailResult_def transformAskDetailResult_def
        transformStatusAndError_def up Let_def split: option.splits)
  have b: "if body_status b = None \<or> body_status b = Some []
         then tracker_step (FetchSettled n (Reply b)) t
                = t\<lparr>pending := remove_nth n (pending t),
                    settled_rejected := settled_rejected t @
                      [(tr_id r, FetchFailed (UnknownAskStatus (body_status b)))]\<rparr>
              \<and> tasks (tracker_step (FetchSettled n (Reply b)) t) = tasks t
              \<and> store (tracker_step (FetchSettled n (Reply b)) t) = store t
         else settled_rejected (tracker_step (FetchSettled n (Reply b)) t) = settled_rejected t"
    if p: "n < length (pending t)" "pending t ! n = AwaitFetch r bd"
  proof (cases "body_status b = None \<or> body_status b = Some []")
    case True
    then have "getAskDetailResult (Reply b) = Inl (UnknownAskStatus (body_status b))"
      using g by (auto split: option.splits)
    then show ?thesis
      using True p by (simp add: fetch_settled_def)
  next
    case False
    then obtain res where "getAskDetailResult (Reply b) = Inr res"
      using ok by blast
    then show ?thesis
      using False p by (auto simp: fetch_settled_def)
  qed
  show ?thesis
    using a b by blast
qed

lemmas tracker_simps =
  run_def init_def generateThreadResponseBreakdown_def findOneBy_def updateOne_def addTask_def
  tick_def start_job_def Object_values_def fetch_settled_def update_resolved_def
  update_rejected_def getAskDetailResult_def transformAskDetailResult_def
  transformStatusAndError_def updatedBreakdownDetail_def remove_nth_def tasks_delete_def
  toUpperCase_def upper_char_def truthy_code_def isFinalized_def UNDERSTANDING_def
  AskResultStatus_FAILED_def AskResultStatus_FINISHED_def AskResultStatus_STOPPED_def
  repository42_def response42_def body_with_status_def Let_def

lemma run_append: "run (evs @ evs') t = run evs' (run evs t)"
  by (simp add: run_def)

lemma run_polling42:
  "run polling42 (init repository42) =
     \<lparr>tasks = [(42, tracked42)], runningJobs = {42},
      pending = [AwaitFetch tracked42
        \<lparr>bd_queryId = ''qid'', bd_status = Some ''UNDERSTANDING'', bd_error = None,
         bd_description = None, bd_steps = None\<rparr>],
      settled_rejected = [], fetch_calls = [(42, ''qid'')], telemetry_events = [],
      store = \<lparr>rows = [tracked42],
        writes = [Updated 42 (PatchBreakdownDetail
          \<lparr>bd_queryId = ''qid'', bd_status = Some ''UNDERSTANDING'', bd_error = None,
           bd_description = None, bd_steps = None\<rparr>)]\<rparr>\<rparr>"
  by (simp add: polling42_def tracked42_def tracker_simps)

subsection \<open>The tracker on the response 42\<close>

lemma get_result_status:
  "s \<noteq> [] \<Longrightarrow> getAskDetailResult (Reply (body_with_status (Some s))) =
     Inr (result_with_status (toUpperCase s))"
  by (simp add: result_with_status_def getAskDetailResult_def transformAskDetailResult_def
      transformStatusAndError_def body_with_status_def truthy_code_def toUpperCase_def Let_def)

lemma upper_examples:
  "toUpperCase ''understanding'' = ''UNDERSTANDING''"
  "toUpperCase ''searching'' = ''SEARCHING''"
  "toUpperCase ''finished'' = ''FINISHED''"
  "toUpperCase ''bogus'' = ''BOGUS''"
  by (simp_all add: toUpperCase_def upper_char_def)

lemma tracked42_simps:
  "tr_id tracked42 = 42"
  "tr_breakdownDetail tracked42 = Some understanding_detail"
  "tr_question tracked42 = Some ''How many orders?''"
  by (simp_all add: tracked42_def response42_def understanding_detail_def)

lemma run_polling42':
  "run polling42 (init repository42) =
     \<lparr>tasks = [(42, tracked42)], runningJobs = {42},
      pending = [AwaitFetch tracked42 understanding_detail],
      settled_rejected = [], fetch_calls = [(42, ''qid'')], telemetry_events = [],
      store = \<lparr>rows = [tracked42],
        writes = [Updated 42 (PatchBreakdownDetail understanding_detail)]\<rparr>\<rparr>"
  by (simp add: run_polling42 understanding_detail_def)

lemma understanding_detail_simps:
  "bd_status understanding_detail = Some ''UNDERSTANDING''"
  "bd_queryId understanding_detail = ''qid''"
  by (simp_all add: understanding_detail_def)

lemma result_with_status_simps:
  "adr_status (result_with_status s) = s"
  "adr_error (result_with_status s) = None"
  "updatedBreakdownDetail understanding_detail (result_with_status s) = detail_with_status s"
  by (simp_all add: result_with_status_def updatedBreakdownDetail_def detail_with_status_def
      understanding_detail_def)

lemma tasks_polling42: "tasks (run polling42 (init repository42)) = [(42, tracked42)]"
  by (simp add: run_polling42')

lemma run_Nil: "run [] t = t"
  by (simp add: run_def)

lemma run_Cons: "run (ev # evs) t = run evs (tracker_step ev t)"
  by (simp add: run_def)

theorem one_poll_in_flight_witness:
  "in_flight (run polling42 (init repository42)) 42 = [AwaitFetch tracked42 understanding_detail]
   \<and> length (in_flight (run polling42 (init repository42)) 42) \<le> 1
   \<and> in_flight (tracker_step Tick (run polling42 (init repository42))) 42
       = [AwaitFetch tracked42 understanding_detail]
   \<and> polls_sent (tracker_step Tick (run polling42 (init repository42))) 42 = [(42, ''qid'')]
   \<and> 42 \<in> runningJobs (run polling42 (init repository42))
   \<and> 42 \<notin> runningJobs (tracker_step
         (FetchSettled 0 (Reply (body_with_status (Some ''understanding''))))
         (run polling42 (init repository42)))
   \<and> completes_poll (FetchSettled 0 (Reply (body_with_status (Some ''understanding''))))
         (run polling42 (init repository42)) 42"
proof -
  let ?t = "run polling42 (init repository42)"
  let ?ev = "FetchSettled 0 (Reply (body_with_status (Some ''understanding'')))"
  have f: "in_flight ?t 42 = [AwaitFetch tracked42 understanding_detail]"
    by (simp add: run_polling42' in_flight_def tracked42_simps)
  have p: "polls_sent ?t 42 = [(42, ''qid'')]"
    by (simp add: run_polling42' polls_sent_def)
  have m: "42 \<in> runningJobs ?t"
    by (simp add: run_polling42')
  have c: "42 \<notin> runningJobs (tracker_step ?ev ?t)"
    by (simp add: run_polling42' fetch_settled_def get_result_status upper_examples
        understanding_detail_simps tracked42_simps result_with_status_simps)
  note th = one_poll_in_flight [where t = ?t and evs = polling42 and repo = repository42
      and e = 42 and ev = ?ev, OF refl]
  have ne: "in_flight ?t 42 \<noteq> []"
    using f by simp
  have "length (in_flight ?t 42) \<le> 1"
    and "in_flight (tracker_step Tick ?t) 42 = in_flight ?t 42"
    and "polls_sent (tracker_step Tick ?t) 42 = polls_sent ?t 42"
    and "completes_poll ?ev ?t 42"
    using th ne m c by blast+
  then show ?thesis
    using f p m c by simp
qed


lemma final_examples:
  "isFinalized ''FINISHED''" "\<not> isFinalized ''SEARCHING''" "\<not> isFinalized ''BOGUS''"
  by (simp_all add: isFinalized_def AskResultStatus_FAILED_def AskResultStatus_FINISHED_def
      AskResultStatus_STOPPED_def)

lemma fetch_changed42:
  "s \<noteq> [] \<Longrightarrow> toUpperCase s \<noteq> ''UNDERSTANDING'' \<Longrightarrow>
   fetch_settled 0 (Reply (body_with_status (Some s)))
     (run polling42 (init repository42))
   = (run polling42 (init repository42))
       \<lparr>pending := [AwaitUpdate tracked42 (detail_with_status (toUpperCase s))
                      (result_with_status (toUpperCase s))]\<rparr>"
  by (simp add: run_polling42' fetch_settled_def get_result_status understanding_detail_simps
      result_with_status_simps)

lemma update_resolved42:
  "update_resolved 0
     ((run polling42 (init repository42))
       \<lparr>pending := [AwaitUpdate tracked42 (detail_with_status s) (result_with_status s)]\<rparr>)
   = \<lparr>tasks = (if isFinalized s then [] else [(42, tracked42)]), runningJobs = {},
      pending = [], settled_rejected = [], fetch_calls = [(42, ''qid'')],
      telemetry_events =
        (if isFinalized s
         then [(Some ''How many orders?'', None, s = AskResultStatus_FINISHED)] else []),
      store = \<lparr>rows = [tracked42\<lparr>tr_breakdownDetail := Some (detail_with_status s)\<rparr>],
        writes = [Updated 42 (PatchBreakdownDetail understanding_detail),
                  Updated 42 (PatchBreakdownDetail (detail_with_status s))]\<rparr>\<rparr>"
  by (simp add: run_polling42' update_resolved_def result_with_status_simps tracked42_simps
      updateOne_def remove_nth_def tasks_delete_def Let_def)

theorem removed_iff_final_status_witness:
  "tracked (run polling42 (init repository42)) 42
   \<and> getAskDetailResult (Reply (body_with_status (Some ''finished'')))
       = Inr (result_with_status ''FINISHED'')
   \<and> isFinalized (adr_status (result_with_status ''FINISHED''))
   \<and> tracked (tracker_step (FetchSettled 0 (Reply (body_with_status (Some ''finished''))))
         (run polling42 (init repository42))) 42
   \<and> completes_final_poll (UpdateResolved 0)
         (tracker_step (FetchSettled 0 (Reply (body_with_status (Some ''finished''))))
           (run polling42 (init repository42))) 42
   \<and> \<not> tracked (tracker_step (UpdateResolved 0)
         (tracker_step (FetchSettled 0 (Reply (body_with_status (Some ''finished''))))
           (run polling42 (init repository42)))) 42
   \<and> \<not> completes_final_poll (UpdateResolved 0)
         (tracker_step (FetchSettled 0 (Reply (body_with_status (Some ''searching''))))
           (run polling42 (init repository42))) 42
   \<and> tracked (tracker_step (UpdateResolved 0)
         (tracker_step (FetchSettled 0 (Reply (body_with_status (Some ''searching''))))
           (run polling42 (init repository42)))) 42"
proof -
  let ?t = "run polling42 (init repository42)"
  let ?fin = "FetchSettled 0 (Reply (body_with_status (Some ''finished'')))"
  let ?sea = "FetchSettled 0 (Reply (body_with_status (Some ''searching'')))"
  have g: "getAskDetailResult (Reply (body_with_status (Some ''finished'')))
       = Inr (result_with_status ''FINISHED'')"
    using get_result_status [of "''finished''"] by (simp add: upper_examples)
  have fin: "isFinalized (adr_status (result_with_status ''FINISHED''))"
    by (simp add: result_with_status_simps final_examples)
  have p: "0 < length (pending ?t)" "pending ?t ! 0 = AwaitFetch tracked42 understanding_detail"
    by (simp_all add: run_polling42')
  have tr: "tracked ?t 42"
    by (simp add: run_polling42' tracked_def)
  have t1: "tracker_step ?fin ?t = run (polling42 @ [?fin]) (init repository42)"
    by (simp add: run_append run_Cons run_Nil)
  have t2: "tracker_step ?sea ?t = run (polling42 @ [?sea]) (init repository42)"
    by (simp add: run_append run_Cons run_Nil)
  have a: "\<not> tracked (tracker_step (UpdateResolved 0) (tracker_step ?fin ?t)) 42"
    and a': "tracked ?t 42"
    using removed_iff_final_status [where t = ?t and evs = polling42 and repo = repository42
        and n = 0 and r = tracked42 and bd = understanding_detail
        and reply = "Reply (body_with_status (Some ''finished''))"
        and res = "result_with_status ''FINISHED''", OF refl] p g fin
    by (simp_all add: tracked42_simps)
  have tr1: "tracked (tracker_step ?fin ?t) 42"
    by (simp add: fetch_changed42 upper_examples tasks_polling42 tracked_def)
  have b: "completes_final_poll (UpdateResolved 0) (tracker_step ?fin ?t) 42"
    using removed_iff_final_status [OF t1, where e = 42 and ev = "UpdateResolved 0"] tr1 a
    by blast
  have nc: "\<not> completes_final_poll (UpdateResolved 0) (tracker_step ?sea ?t) 42"
    by (simp add: fetch_changed42 upper_examples completes_final_poll_def
        result_with_status_simps final_examples)
  have tr2: "tracked (tracker_step ?sea ?t) 42"
    by (simp add: fetch_changed42 upper_examples tasks_polling42 tracked_def)
  have c: "tracked (tracker_step (UpdateResolved 0) (tracker_step ?sea ?t)) 42"
    using removed_iff_final_status [OF t2, where e = 42 and ev = "UpdateResolved 0"] tr2 nc
    by blast
  show ?thesis
    using tr g fin tr1 b a nc c by blast
qed

theorem unchanged_status_no_write_witness:
  "pending (run polling42 (init repository42)) ! 0 = AwaitFetch tracked42 understanding_detail
   \<and> getAskDetailResult (Reply (body_with_status (Some ''understanding'')))
       = Inr (result_with_status ''UNDERSTANDING'')
   \<and> bd_status understanding_detail = Some (adr_status (result_with_status ''UNDERSTANDING''))
   \<and> store (tracker_step (FetchSettled 0 (Reply (body_with_status (Some ''understanding''))))
         (run polling42 (init repository42)))
       = store (run polling42 (init repository42))
   \<and> in_flight (tracker_step (FetchSettled 0 (Reply (body_with_status (Some ''understanding''))))
         (run polling42 (init repository42))) 42 = []
   \<and> 42 \<notin> runningJobs
         (tracker_step (FetchSettled 0 (Reply (body_with_status (Some ''understanding''))))
           (run polling42 (init repository42)))
   \<and> tracked (tracker_step (FetchSettled 0 (Reply (body_with_status (Some ''understanding''))))
         (run polling42 (init repository42))) 42"
proof -
  let ?t = "run polling42 (init repository42)"
  have g: "getAskDetailResult (Reply (body_with_status (Some ''understanding'')))
       = Inr (result_with_status ''UNDERSTANDING'')"
    using get_result_status [of "''understanding''"] by (simp add: upper_examples)
  have p: "0 < length (pending ?t)" "pending ?t ! 0 = AwaitFetch tracked42 understanding_detail"
    by (simp_all add: run_polling42')
  have s: "bd_status understanding_detail = Some (adr_status (result_with_status ''UNDERSTANDING''))"
    by (simp add: understanding_detail_simps result_with_status_simps)
  note th = unchanged_status_no_write [OF refl p(1) p(2) g s]
  show ?thesis
    using th p(2) g s by (simp add: tracked42_simps)
qed

text \<open>
  The claim C2 as the specification states it fails at the tick that follows a final
  fetch: the poll of the response 42 fetches \<open>FINISHED\<close> and is suspended at
  \<^verbatim>\<open>updateOne\<close>; the timer fires before the write has returned, and the entity is still in
  the tasks (and marked, so it is skipped).
\<close>

theorem final_fetch_still_tracked_counterexample:
  "getAskDetailResult (Reply (body_with_status (Some ''finished'')))
     = Inr (result_with_status ''FINISHED'')
   \<and> isFinalized (adr_status (result_with_status ''FINISHED''))
   \<and> tracked (run (polling42 @
         [FetchSettled 0 (Reply (body_with_status (Some ''finished''))), Tick])
         (init repository42)) 42
   \<and> pending (run (polling42 @
         [FetchSettled 0 (Reply (body_with_status (Some ''finished''))), Tick])
         (init repository42))
       = [AwaitUpdate tracked42 (detail_with_status ''FINISHED'') (result_with_status ''FINISHED'')]"
proof -
  have g: "getAskDetailResult (Reply (body_with_status (Some ''finished'')))
     = Inr (result_with_status ''FINISHED'')"
    using get_result_status [of "''finished''"] by (simp add: upper_examples)
  have fin: "isFinalized (adr_status (result_with_status ''FINISHED''))"
    by (simp add: result_with_status_simps final_examples)
  have st: "run (polling42 @
         [FetchSettled 0 (Reply (body_with_status (Some ''finished''))), Tick])
         (init repository42)
      = tick ((run polling42 (init repository42))
          \<lparr>pending := [AwaitUpdate tracked42 (detail_with_status ''FINISHED'')
                        (result_with_status ''FINISHED'')]\<rparr>)"
    unfolding run_append
    by (simp add: run_Cons run_Nil fetch_changed42 upper_examples)
  have tk: "tick ((run polling42 (init repository42))
          \<lparr>pending := [AwaitUpdate tracked42 (detail_with_status ''FINISHED'')
                        (result_with_status ''FINISHED'')]\<rparr>)
      = (run polling42 (init repository42))
          \<lparr>pending := [AwaitUpdate tracked42 (detail_with_status ''FINISHED'')
                        (result_with_status ''FINISHED'')]\<rparr>"
    by (simp add: run_polling42' tick_def start_job_def Object_values_def tracked42_simps)
  show ?thesis
    unfolding st tk
    using g fin by (simp add: tracked_def tasks_polling42)
qed

text \<open>
  C4. A poll whose fetched status equals the status already persisted in the detail of
  the entity is to write nothing, release the mark and leave the entity tracked. The
  tracker does not do so at this run: the response 42 is registered with
  \<open>UNDERSTANDING\<close>, a poll fetches \<open>SEARCHING\<close> and the tracker writes it, and the next
  poll fetches \<open>SEARCHING\<close> again. The status in the repository is \<open>SEARCHING\<close>, equal
  to the fetched one, yet the job, which compares with the response it holds in the tasks
  (never refreshed after the write, still \<open>UNDERSTANDING\<close>), keeps the mark, calls
  \<^verbatim>\<open>updateOne\<close> and the same detail is written once more.
\<close>

theorem stale_status_rewritten:
  "persisted_status (run stale42 (init repository42)) 42 = Some ''SEARCHING''
   \<and> getAskDetailResult (Reply (body_with_status (Some ''searching'')))
       = Inr (result_with_status ''SEARCHING'')
   \<and> pending (tracker_step (FetchSettled 0 (Reply (body_with_status (Some ''searching''))))
         (run stale42 (init repository42)))
       = [AwaitUpdate tracked42 (detail_with_status ''SEARCHING'') (result_with_status ''SEARCHING'')]
   \<and> 42 \<in> runningJobs
         (tracker_step (FetchSettled 0 (Reply (body_with_status (Some ''searching''))))
           (run stale42 (init repository42)))
   \<and> writes (store (tracker_step (UpdateResolved 0)
         (tracker_step (FetchSettled 0 (Reply (body_with_status (Some ''searching''))))
           (run stale42 (init repository42)))))
       = writes (store (run stale42 (init repository42)))
           @ [Updated 42 (PatchBreakdownDetail (detail_with_status ''SEARCHING''))]"
proof -
  have g: "getAskDetailResult (Reply (body_with_status (Some ''searching'')))
       = Inr (result_with_status ''SEARCHING'')"
    using get_result_status [of "''searching''"] by (simp add: upper_examples)
  have st: "run stale42 (init repository42) =
      \<lparr>tasks = [(42, tracked42)], runningJobs = {42},
       pending = [AwaitFetch tracked42 understanding_detail],
       settled_rejected = [], fetch_calls = [(42, ''qid''), (42, ''qid'')],
       telemetry_events = [],
       store = \<lparr>rows = [tracked42\<lparr>tr_breakdownDetail := Some (detail_with_status ''SEARCHING'')\<rparr>],
         writes = [Updated 42 (PatchBreakdownDetail understanding_detail),
                   Updated 42 (PatchBreakdownDetail (detail_with_status ''SEARCHING''))]\<rparr>\<rparr>"
    unfolding stale42_def run_append
    by (simp add: run_Cons run_Nil fetch_changed42 upper_examples update_resolved42 final_examples
        tick_def start_job_def Object_values_def tracked42_simps understanding_detail_simps)
  show ?thesis
    unfolding st
    by (simp add: g persisted_status_def findOneBy_def tracked42_simps detail_with_status_def
        fetch_settled_def update_resolved_def understanding_detail_simps result_with_status_simps
        updatedBreakdownDetail_def final_examples updateOne_def remove_nth_def Let_def
        understanding_detail_def result_with_status_def)
qed

theorem unknown_status_poll_witness:
  "transformStatusAndError (body_with_status None) = Inl (UnknownAskStatus None)
   \<and> pending (run polling42 (init repository42)) ! 0 = AwaitFetch tracked42 understanding_detail
   \<and> tracker_step (FetchSettled 0 (Reply (body_with_status None))) (run polling42 (init repository42))
       = (run polling42 (init repository42))
           \<lparr>pending := [], settled_rejected := [(42, FetchFailed (UnknownAskStatus None))]\<rparr>
   \<and> tasks (tracker_step (FetchSettled 0 (Reply (body_with_status None)))
         (run polling42 (init repository42))) = [(42, tracked42)]
   \<and> store (tracker_step (FetchSettled 0 (Reply (body_with_status None)))
         (run polling42 (init repository42))) = store (run polling42 (init repository42))"
proof -
  let ?t = "run polling42 (init repository42)"
  have p: "0 < length (pending ?t) \<and> pending ?t ! 0 = AwaitFetch tracked42 understanding_detail"
    by (simp add: run_polling42')
  have n: "body_status (body_with_status None) = None"
    by (simp add: body_with_status_def)
  note th = unknown_status_poll [where body = "body_with_status None" and n = 0 and t = ?t
      and r = tracked42 and bd = understanding_detail and b = "body_with_status None"]
  have a: "transformStatusAndError (body_with_status None) = Inl (UnknownAskStatus None)"
    using th n by simp
  have b: "tracker_step (FetchSettled 0 (Reply (body_with_status None))) ?t
      = ?t\<lparr>pending := remove_nth 0 (pending ?t),
           settled_rejected := settled_rejected ?t @
             [(tr_id tracked42, FetchFailed (UnknownAskStatus (body_status (body_with_status None))))]\<rparr>"
    and c: "tasks (tracker_step (FetchSettled 0 (Reply (body_with_status None))) ?t) = tasks ?t"
    and d: "store (tracker_step (FetchSettled 0 (Reply (body_with_status None))) ?t) = store ?t"
    using th p n by simp_all
  have e: "remove_nth 0 (pending ?t) = []" "settled_rejected ?t = []" "tasks ?t = [(42, tracked42)]"
    by (simp_all add: run_polling42' remove_nth_def)
  show ?thesis
    using a p b c d e n by (simp add: tracked42_simps)
qed

text \<open>
  The claim C3 as the specification states it fails for a status that no enumeration
  has: \<open>bogus\<close> is upper-cased and returned as the status, nothing is thrown, the poll
  is not rejected and \<open>BOGUS\<close> is written to the repository.
\<close>

theorem unknown_status_accepted_counterexample:
  "transformStatusAndError (body_with_status (Some ''bogus''))
     = Inr \<lparr>sae_status = ''BOGUS'', sae_error = None\<rparr>
   \<and> ''BOGUS'' \<notin> {UNDERSTANDING, AskResultStatus_FAILED, AskResultStatus_FINISHED,
         AskResultStatus_STOPPED}
   \<and> settled_rejected (run (polling42 @
         [FetchSettled 0 (Reply (body_with_status (Some ''bogus''))), UpdateResolved 0])
         (init repository42)) = []
   \<and> persisted_status (run (polling42 @
         [FetchSettled 0 (Reply (body_with_status (Some ''bogus''))), UpdateResolved 0])
         (init repository42)) 42 = Some ''BOGUS''"
proof -
  have a: "transformStatusAndError (body_with_status (Some ''bogus''))
     = Inr \<lparr>sae_status = ''BOGUS'', sae_error = None\<rparr>"
    by (simp add: transformStatusAndError_def body_with_status_def truthy_code_def upper_examples
        Let_def)
  have b: "''BOGUS'' \<notin> {UNDERSTANDING, AskResultStatus_FAILED, AskResultStatus_FINISHED,
         AskResultStatus_STOPPED}"
    by (simp add: UNDERSTANDING_def AskResultStatus_FAILED_def AskResultStatus_FINISHED_def
        AskResultStatus_STOPPED_def)
  have st: "run (polling42 @
         [FetchSettled 0 (Reply (body_with_status (Some ''bogus''))), UpdateResolved 0])
         (init repository42)
      = update_resolved 0
          ((run polling42 (init repository42))
            \<lparr>pending := [AwaitUpdate tracked42 (detail_with_status ''BOGUS'')
                          (result_with_status ''BOGUS'')]\<rparr>)"
    unfolding run_append
    by (simp add: run_Cons run_Nil fetch_changed42 upper_examples)
  show ?thesis
    unfolding st update_resolved42
    using a b
    by (simp add: final_examples persisted_status_def findOneBy_def tracked42_simps
        detail_with_status_def)
qed

end
